theory Spec2Isabelle
  imports Main "HOL-Library.Word"
begin

unbundle bit_operations_syntax

section \<open>The SNI parser and the record splitter of src/tls.c\<close>

text \<open>
  The file src/tls.c holds four functions: \<open>parse_tls_header\<close>, which walks a TLS
  record holding a ClientHello, \<open>parse_extensions\<close> and
  \<open>parse_server_name_extension\<close>, to which it delegates, and \<open>modify_tls_header\<close>,
  which splits the record in two after the first byte of the host name.

  Bytes are \<open>uint8_t\<close>, modelled as 8-bit words. Positions and lengths are \<open>size_t\<close>,
  modelled as \<open>nat\<close>: in the three parsing functions every length read from the buffer
  is below \<open>2 ^ 16\<close> and a position is advanced only by such lengths, at most three times
  before the next comparison with \<open>data_len\<close>, so no sum there can reach \<open>2 ^ 32\<close>. The
  subtractions of \<open>modify_tls_header\<close> can wrap, and are written out with their
  wrap-around (\<open>size_t_sub\<close>).
\<close>

type_synonym u8 = "8 word"

subsection \<open>Outcomes\<close>

text \<open>
  The return codes of the parser, as its header comment lists them: -1 incomplete
  request, -2 no host name, -3 invalid hostname pointer, -4 malloc failure, -5 invalid
  client hello. \<open>OutOfBounds\<close> and \<open>Overlap\<close> are not return codes: they stand for an
  execution that indexes the buffer at or beyond the length its caller supplied, and for
  a \<open>memcpy\<close> between overlapping regions, both undefined in C.
\<close>

datatype error =
    Incomplete
  | NoHostname
  | InvalidHostnamePointer
  | AllocationFailure
  | Malformed
  | OutOfBounds
  | Overlap

text \<open>
  A successful parse returns the length of the name (\<open>ret_len\<close>) and leaves the
  allocated string in \<open>*hostname\<close> (\<open>out_hostname\<close>) and the offset of the name in
  \<open>*modify_pos\<close> (\<open>out_modify_pos\<close>). On a failure the model keeps the return code
  only.
\<close>

record sni =
  ret_len :: nat
  out_hostname :: "u8 list"
  out_modify_pos :: nat

type_synonym parse_result = "error + sni"

fun return_code :: "parse_result \<Rightarrow> int option" where
  "return_code (Inl Incomplete) = Some (- 1)"
| "return_code (Inl NoHostname) = Some (- 2)"
| "return_code (Inl InvalidHostnamePointer) = Some (- 3)"
| "return_code (Inl AllocationFailure) = Some (- 4)"
| "return_code (Inl Malformed) = Some (- 5)"
| "return_code (Inl OutOfBounds) = None"
| "return_code (Inl Overlap) = None"
| "return_code (Inr r) = Some (int (ret_len r))"

definition bnd :: "error + 'a \<Rightarrow> ('a \<Rightarrow> error + 'b) \<Rightarrow> error + 'b" where
  "bnd m f = (case m of Inl e \<Rightarrow> Inl e | Inr v \<Rightarrow> f v)"

subsection \<open>Memory\<close>

text \<open>
  A pointer into the caller's buffer is the buffer \<open>buf\<close>, the length \<open>lim\<close> the caller
  supplied for it, and an offset. \<open>rd buf lim i\<close> is the read \<open>buf[i]\<close>: it fails unless
  \<open>i\<close> is below the supplied length (and inside the memory the model holds).
\<close>

definition rd :: "u8 list \<Rightarrow> nat \<Rightarrow> nat \<Rightarrow> error + u8" where
  "rd buf lim i = (if i < lim \<and> i < length buf then Inr (buf ! i) else Inl OutOfBounds)"

text \<open>The expression \<open>((size_t)data[i] << 8) + (size_t)data[i + 1]\<close>.\<close>

definition rd16 :: "u8 list \<Rightarrow> nat \<Rightarrow> nat \<Rightarrow> error + nat" where
  "rd16 buf lim i =
     bnd (rd buf lim i) (\<lambda>hi.
     bnd (rd buf lim (i + 1)) (\<lambda>lo.
     Inr (unat hi * 256 + unat lo)))"

text \<open>
  \<open>strncpy(dst, src, n)\<close>: copies bytes up to and without the first zero byte, at most
  \<open>n\<close> of them, and fills the rest of the \<open>n\<close> bytes of \<open>dst\<close> with zeros. It reads no
  byte of \<open>src\<close> after a zero byte.
\<close>

fun strncpy :: "u8 list \<Rightarrow> nat \<Rightarrow> nat \<Rightarrow> nat \<Rightarrow> error + u8 list" where
  "strncpy buf lim src 0 = Inr []"
| "strncpy buf lim src (Suc n) =
     bnd (rd buf lim src) (\<lambda>c.
     if c = 0 then Inr (replicate (Suc n) 0)
     else bnd (strncpy buf lim (src + 1) n) (\<lambda>cs. Inr (c # cs)))"

subsection \<open>The parser\<close>

definition TLS_HEADER_LEN :: nat where
  "TLS_HEADER_LEN = 5"

definition TLS_HANDSHAKE_CONTENT_TYPE :: u8 where
  "TLS_HANDSHAKE_CONTENT_TYPE = 0x16"

definition TLS_HANDSHAKE_TYPE_CLIENT_HELLO :: u8 where
  "TLS_HANDSHAKE_TYPE_CLIENT_HELLO = 0x01"

lemma bnd_cong [fundef_cong]:
  "m = m' \<Longrightarrow> (\<And>v. m' = Inr v \<Longrightarrow> f v = f' v) \<Longrightarrow> bnd m f = bnd m' f'"
  by (cases m') (simp_all add: bnd_def)

text \<open>
  The loop of \<open>parse_server_name_extension\<close> (lines 242 to 272), with the local \<open>pos\<close>
  as its last argument. \<open>base\<close> is the offset of the pointer \<open>data\<close> in the buffer,
  \<open>data_len\<close> the length of the extension body, \<open>old_pos\<close> the value of \<open>*modify_pos\<close>
  on entry, and \<open>malloc_ok n\<close> says whether \<open>malloc(n)\<close> returns a block.
\<close>

function parse_server_name_extension_loop ::
  "(nat \<Rightarrow> bool) \<Rightarrow> u8 list \<Rightarrow> nat \<Rightarrow> nat \<Rightarrow> nat \<Rightarrow> nat \<Rightarrow> nat \<Rightarrow> parse_result" where
  "parse_server_name_extension_loop malloc_ok buf lim base data_len old_pos pos =
     (if pos + 3 < data_len then
        bnd (rd16 buf lim (base + pos + 1)) (\<lambda>len.
        if pos + 3 + len > data_len then Inl Malformed
        else
          bnd (rd buf lim (base + pos)) (\<lambda>name_type.
          if name_type = 0x00 then
            (if \<not> malloc_ok (len + 1) then Inl AllocationFailure
             else
               bnd (strncpy buf lim (base + pos + 3) len) (\<lambda>cs.
               Inr \<lparr>ret_len = len, out_hostname = cs @ [0],
                    out_modify_pos = pos + 3 + old_pos\<rparr>))
          else
            parse_server_name_extension_loop malloc_ok buf lim base data_len old_pos
              (pos + 3 + len)))
      else if pos \<noteq> data_len then Inl Malformed
      else Inl NoHostname)"
  by pat_completeness auto
termination
  by (relation "measure (\<lambda>(malloc_ok, buf, lim, base, data_len, old_pos, pos). data_len - pos)")
     auto

definition parse_server_name_extension ::
  "(nat \<Rightarrow> bool) \<Rightarrow> u8 list \<Rightarrow> nat \<Rightarrow> nat \<Rightarrow> nat \<Rightarrow> nat \<Rightarrow> parse_result" where
  "parse_server_name_extension malloc_ok buf lim base data_len old_pos =
     parse_server_name_extension_loop malloc_ok buf lim base data_len old_pos 2"

text \<open>
  The condition \<open>data[pos] == 0x00 && data[pos + 1] == 0x00\<close> of \<open>parse_extensions\<close>;
  the second byte is read only when the first is zero.
\<close>

definition is_server_name :: "u8 list \<Rightarrow> nat \<Rightarrow> nat \<Rightarrow> error + bool" where
  "is_server_name buf lim i =
     bnd (rd buf lim i) (\<lambda>t0.
     if t0 = 0x00 then bnd (rd buf lim (i + 1)) (\<lambda>t1. Inr (t1 = 0x00))
     else Inr False)"

text \<open>The loop of \<open>parse_extensions\<close> (lines 212 to 232).\<close>

function parse_extensions_loop ::
  "(nat \<Rightarrow> bool) \<Rightarrow> u8 list \<Rightarrow> nat \<Rightarrow> nat \<Rightarrow> nat \<Rightarrow> nat \<Rightarrow> nat \<Rightarrow> parse_result" where
  "parse_extensions_loop malloc_ok buf lim base data_len old_pos pos =
     (if pos + 4 \<le> data_len then
        bnd (rd16 buf lim (base + pos + 2)) (\<lambda>len.
        bnd (is_server_name buf lim (base + pos)) (\<lambda>server_name.
        if server_name then
          (if pos + 4 + len > data_len then Inl Malformed
           else parse_server_name_extension malloc_ok buf lim (base + pos + 4) len
                  (pos + 4 + old_pos))
        else
          parse_extensions_loop malloc_ok buf lim base data_len old_pos (pos + 4 + len)))
      else if pos \<noteq> data_len then Inl Malformed
      else Inl NoHostname)"
  by pat_completeness auto
termination
  by (relation "measure (\<lambda>(malloc_ok, buf, lim, base, data_len, old_pos, pos). data_len - pos)")
     auto

definition parse_extensions ::
  "(nat \<Rightarrow> bool) \<Rightarrow> u8 list \<Rightarrow> nat \<Rightarrow> nat \<Rightarrow> nat \<Rightarrow> nat \<Rightarrow> parse_result" where
  "parse_extensions malloc_ok buf lim base data_len old_pos =
     parse_extensions_loop malloc_ok buf lim base data_len old_pos 0"

text \<open>
  The condition \<open>data[0] & 0x80 && data[2] == 1\<close> of \<open>parse_tls_header\<close>; the byte at 2
  is read only when the high bit of the byte at 0 is set.
\<close>

definition ssl2_client_hello :: "u8 list \<Rightarrow> nat \<Rightarrow> error + bool" where
  "ssl2_client_hello data data_len =
     bnd (rd data data_len 0) (\<lambda>d0.
     if d0 AND 0x80 \<noteq> 0 then bnd (rd data data_len 2) (\<lambda>d2. Inr (d2 = 1))
     else Inr False)"

text \<open>
  Lines 149 to 203 of \<open>parse_tls_header\<close>: the handshake, from the check of the
  handshake type on. \<open>lim\<close> is the length the caller supplied, \<open>data_len\<close> the local
  \<open>data_len\<close> after \<open>MIN\<close>.
\<close>

definition parse_handshake ::
  "(nat \<Rightarrow> bool) \<Rightarrow> u8 list \<Rightarrow> nat \<Rightarrow> nat \<Rightarrow> u8 \<Rightarrow> u8 \<Rightarrow> parse_result" where
  "parse_handshake malloc_ok data lim data_len tls_version_major tls_version_minor =
     (let pos = TLS_HEADER_LEN in
      if pos + 1 > data_len then Inl Malformed
      else
        bnd (rd data lim pos) (\<lambda>handshake_type.
        if handshake_type \<noteq> TLS_HANDSHAKE_TYPE_CLIENT_HELLO then Inl Malformed
        else
          let pos = pos + 38 in
          if pos + 1 > data_len then Inl Malformed
          else
            bnd (rd data lim pos) (\<lambda>session_id_len.
            let pos = pos + 1 + unat session_id_len in
            if pos + 2 > data_len then Inl Malformed
            else
              bnd (rd16 data lim pos) (\<lambda>cipher_suites_len.
              let pos = pos + 2 + cipher_suites_len in
              if pos + 1 > data_len then Inl Malformed
              else
                bnd (rd data lim pos) (\<lambda>compression_len.
                let pos = pos + 1 + unat compression_len in
                if pos = data_len \<and> tls_version_major = 3 \<and> tls_version_minor = 0
                then Inl NoHostname
                else if pos + 2 > data_len then Inl Malformed
                else
                  bnd (rd16 data lim pos) (\<lambda>len.
                  let pos = pos + 2 in
                  if pos + len > data_len then Inl Malformed
                  else parse_extensions malloc_ok data lim pos len pos))))))"

text \<open>
  \<open>parse_tls_header\<close> (lines 99 to 147, then \<open>parse_handshake\<close>). \<open>hostname_slot\<close> says
  that the argument \<open>hostname\<close> is not \<open>NULL\<close>.
\<close>

definition parse_tls_header ::
  "bool \<Rightarrow> (nat \<Rightarrow> bool) \<Rightarrow> u8 list \<Rightarrow> nat \<Rightarrow> parse_result" where
  "parse_tls_header hostname_slot malloc_ok data data_len =
     (if \<not> hostname_slot then Inl InvalidHostnamePointer
      else if data_len < TLS_HEADER_LEN then Inl Incomplete
      else
        bnd (ssl2_client_hello data data_len) (\<lambda>ssl2.
        if ssl2 then Inl NoHostname
        else
          bnd (rd data data_len 0) (\<lambda>tls_content_type.
          if tls_content_type \<noteq> TLS_HANDSHAKE_CONTENT_TYPE then Inl Malformed
          else
            bnd (rd data data_len 1) (\<lambda>tls_version_major.
            bnd (rd data data_len 2) (\<lambda>tls_version_minor.
            if tls_version_major < 3 then Inl NoHostname
            else
              bnd (rd16 data data_len 3) (\<lambda>record_len.
              let len = record_len + TLS_HEADER_LEN;
                  data_len' = min data_len len
              in if data_len' < len then Inl Incomplete
                 else parse_handshake malloc_ok data data_len data_len'
                        tls_version_major tls_version_minor))))))"

subsection \<open>The record splitter\<close>

text \<open>
  \<open>size_t\<close> subtraction of two values below \<open>2 ^ 64\<close>, with its wrap-around.
\<close>

definition size_t_sub :: "nat \<Rightarrow> nat \<Rightarrow> nat" where
  "size_t_sub a b = (if b \<le> a then a - b else 2 ^ 64 - (b - a))"

text \<open>
  \<open>memmove\<close> and \<open>memcpy\<close> inside one block of memory, the list \<open>buf\<close>: \<open>n\<close> bytes
  from offset \<open>src\<close> to offset \<open>dst\<close>. Both fail when a region leaves the block;
  \<open>memcpy\<close> also when the regions overlap.
\<close>

definition memmove :: "u8 list \<Rightarrow> nat \<Rightarrow> nat \<Rightarrow> nat \<Rightarrow> error + u8 list" where
  "memmove buf dst src n =
     (if dst + n \<le> length buf \<and> src + n \<le> length buf
      then Inr (take dst buf @ take n (drop src buf) @ drop (dst + n) buf)
      else Inl OutOfBounds)"

definition memcpy :: "u8 list \<Rightarrow> nat \<Rightarrow> nat \<Rightarrow> nat \<Rightarrow> error + u8 list" where
  "memcpy buf dst src n =
     (if \<not> (dst + n \<le> length buf \<and> src + n \<le> length buf) then Inl OutOfBounds
      else if src < dst + n \<and> dst < src + n then Inl Overlap
      else Inr (take dst buf @ take n (drop src buf) @ drop (dst + n) buf))"

text \<open>
  The store \<open>*(uint16_t *)(data + i) = htons(v)\<close>: \<open>htons\<close> takes the low 16 bits of \<open>v\<close>
  and the store leaves them in network order, the high byte at \<open>i\<close>.
\<close>

definition store_htons :: "u8 list \<Rightarrow> nat \<Rightarrow> nat \<Rightarrow> error + u8 list" where
  "store_htons buf i v =
     (if i + 2 \<le> length buf
      then Inr (buf[i := of_nat (v mod 65536 div 256), i + 1 := of_nat (v mod 256)])
      else Inl OutOfBounds)"

text \<open>
  \<open>modify_tls_header\<close> (lines 73 to 84). The argument \<open>hostname\<close> is only logged and is
  left out. The memory the function may touch is the whole list \<open>data\<close>; \<open>data_len\<close> is
  the length its caller passes.
\<close>

definition modify_tls_header :: "u8 list \<Rightarrow> nat \<Rightarrow> nat \<Rightarrow> error + u8 list" where
  "modify_tls_header data data_len modify_pos =
     (let sni_split_pos = (modify_pos + 1) mod 2 ^ 64 in
      bnd (memmove data (5 + sni_split_pos) sni_split_pos
             (size_t_sub (size_t_sub data_len 5) sni_split_pos)) (\<lambda>data.
      bnd (memcpy data sni_split_pos 0 5) (\<lambda>data.
      let part1_len = size_t_sub sni_split_pos 5 in
      bnd (rd16 data (length data) 3) (\<lambda>record_length.
      let part2_len = size_t_sub record_length part1_len in
      bnd (store_htons data 3 part1_len) (\<lambda>data.
      store_htons data (sni_split_pos + 3) part2_len)))))"

subsection \<open>Reading a buffer as TLS records\<close>

text \<open>
  The vocabulary of the statements below. \<open>be16 buf i\<close> is the big-endian 16-bit value
  at offset \<open>i\<close>; a TLS record that starts at offset \<open>off\<close> has its length field at
  \<open>off + 3\<close> and its payload after the 5-byte header.
\<close>

definition be16 :: "u8 list \<Rightarrow> nat \<Rightarrow> nat" where
  "be16 buf i = unat (buf ! i) * 256 + unat (buf ! (i + 1))"

definition record_length :: "u8 list \<Rightarrow> nat \<Rightarrow> nat" where
  "record_length buf off = be16 buf (off + 3)"

definition record_payload :: "u8 list \<Rightarrow> nat \<Rightarrow> u8 list" where
  "record_payload buf off = take (record_length buf off) (drop (off + 5) buf)"

text \<open>
  What \<open>strncpy\<close> leaves in its destination when its source is the byte string \<open>bs\<close>
  and its count is \<open>length bs\<close>.
\<close>

definition c_string_copy :: "u8 list \<Rightarrow> u8 list" where
  "c_string_copy bs =
     takeWhile (\<lambda>b. b \<noteq> 0) bs @
     replicate (length bs - length (takeWhile (\<lambda>b. b \<noteq> 0) bs)) 0"

text \<open>The two bytes \<open>store_htons\<close> writes for the value \<open>v\<close>.\<close>

definition htons_bytes :: "nat \<Rightarrow> u8 list" where
  "htons_bytes v = [of_nat (v mod 65536 div 256), of_nat (v mod 256)]"

text \<open>
  The bytes of the buffer at the offset and of the length a successful parse returns:
  the name as the client sent it.
\<close>

definition name_bytes :: "u8 list \<Rightarrow> sni \<Rightarrow> u8 list" where
  "name_bytes data r = take (ret_len r) (drop (out_modify_pos r) data)"

text \<open>
  The layout of a TLS record that holds one ClientHello, as section 4.1 of the
  specification walks it: the record header (content type \<open>0x16\<close>, version, length);
  the handshake header (type \<open>0x01\<close>, a 24-bit length); the client version (2 bytes),
  the random (32 bytes), the session identifier behind its 1-byte length, the cipher
  suites behind their 2-byte length, the compression methods behind their 1-byte length;
  and \<open>tail\<close>, the bytes that follow: none, or an extensions block behind its 2-byte
  length.
\<close>

definition be24_bytes :: "nat \<Rightarrow> u8 list" where
  "be24_bytes n = [of_nat (n div 65536), of_nat (n div 256), of_nat n]"

definition client_hello ::
  "u8 list \<Rightarrow> u8 list \<Rightarrow> u8 list \<Rightarrow> u8 list \<Rightarrow> u8 list \<Rightarrow> u8 list \<Rightarrow> u8 list" where
  "client_hello client_version random session_id cipher_suites compression_methods tail =
     (let body = client_version @ random @
                 [of_nat (length session_id)] @ session_id @
                 htons_bytes (length cipher_suites) @ cipher_suites @
                 [of_nat (length compression_methods)] @ compression_methods @
                 tail
      in [0x01] @ be24_bytes (length body) @ body)"

definition tls_record :: "u8 \<Rightarrow> u8 \<Rightarrow> u8 list \<Rightarrow> u8 list" where
  "tls_record major minor payload = [0x16, major, minor] @ htons_bytes (length payload) @ payload"

subsection \<open>Sample inputs\<close>

text \<open>
  A TLS 1.2 ClientHello of 78 bytes: the record header (handshake, version 3.3, length
  73), the handshake header (ClientHello), the client version, 32 bytes of random, an
  empty session identifier, one cipher suite, one compression method, and an extensions
  block of 26 bytes holding an \<open>ec_point_formats\<close> extension and a \<open>server_name\<close>
  extension whose only entry is the host name \<open>example.com\<close>, at offset 67.
\<close>

definition example_com_hello :: "u8 list" where
  "example_com_hello =
     [0x16, 0x03, 0x03, 0x00, 0x49,
      0x01, 0x00, 0x00, 0x45, 0x03, 0x03,
      0x00, 0x01, 0x02, 0x03, 0x04, 0x05, 0x06, 0x07, 0x08, 0x09, 0x0a, 0x0b, 0x0c, 0x0d, 0x0e, 0x0f,
      0x10, 0x11, 0x12, 0x13, 0x14, 0x15, 0x16, 0x17, 0x18, 0x19, 0x1a, 0x1b, 0x1c, 0x1d, 0x1e, 0x1f,
      0x00,
      0x00, 0x02, 0x00, 0x2f,
      0x01, 0x00,
      0x00, 0x1a,
      0x00, 0x0b, 0x00, 0x02, 0x01, 0x00,
      0x00, 0x00, 0x00, 0x10, 0x00, 0x0e, 0x00, 0x00, 0x0b,
      0x65, 0x78, 0x61, 0x6d, 0x70, 0x6c, 0x65, 0x2e, 0x63, 0x6f, 0x6d]"

text \<open>
  A ClientHello of 64 bytes whose \<open>server_name\<close> extension declares a host name of three
  bytes, \<open>0x61 0x00 0x62\<close>, at offset 61.
\<close>

definition nul_name_hello :: "u8 list" where
  "nul_name_hello =
     [0x16, 0x03, 0x03, 0x00, 0x3b,
      0x01, 0x00, 0x00, 0x37, 0x03, 0x03,
      0x00, 0x01, 0x02, 0x03, 0x04, 0x05, 0x06, 0x07, 0x08, 0x09, 0x0a, 0x0b, 0x0c, 0x0d, 0x0e, 0x0f,
      0x10, 0x11, 0x12, 0x13, 0x14, 0x15, 0x16, 0x17, 0x18, 0x19, 0x1a, 0x1b, 0x1c, 0x1d, 0x1e, 0x1f,
      0x00,
      0x00, 0x02, 0x00, 0x2f,
      0x01, 0x00,
      0x00, 0x0c,
      0x00, 0x00, 0x00, 0x08, 0x00, 0x06, 0x00, 0x00, 0x03,
      0x61, 0x00, 0x62]"

text \<open>
  The buffer of the splitter for that ClientHello: the 78 bytes and the 5 bytes of
  capacity reserved behind them.
\<close>

definition example_com_buffer :: "u8 list" where
  "example_com_buffer = example_com_hello @ [0, 0, 0, 0, 0]"

text \<open>
  The same buffer split after the first byte of the name: a record of 63 bytes, which
  ends with the \<open>e\<close>, and a record of 10 bytes, \<open>xample.com\<close>.
\<close>

definition example_com_split :: "u8 list" where
  "example_com_split =
     [0x16, 0x03, 0x03, 0x00, 0x3f,
      0x01, 0x00, 0x00, 0x45, 0x03, 0x03,
      0x00, 0x01, 0x02, 0x03, 0x04, 0x05, 0x06, 0x07, 0x08, 0x09, 0x0a, 0x0b, 0x0c, 0x0d, 0x0e, 0x0f,
      0x10, 0x11, 0x12, 0x13, 0x14, 0x15, 0x16, 0x17, 0x18, 0x19, 0x1a, 0x1b, 0x1c, 0x1d, 0x1e, 0x1f,
      0x00,
      0x00, 0x02, 0x00, 0x2f,
      0x01, 0x00,
      0x00, 0x1a,
      0x00, 0x0b, 0x00, 0x02, 0x01, 0x00,
      0x00, 0x00, 0x00, 0x10, 0x00, 0x0e, 0x00, 0x00, 0x0b,
      0x65,
      0x16, 0x03, 0x03, 0x00, 0x0a,
      0x78, 0x61, 0x6d, 0x70, 0x6c, 0x65, 0x2e, 0x63, 0x6f, 0x6d]"

text \<open>
  What the splitter leaves of that buffer when it is given the length 78 of the
  ClientHello alone: the second record declares 10 bytes and is followed by \<open>xampl\<close> and
  the five reserved bytes.
\<close>

definition example_com_split_short :: "u8 list" where
  "example_com_split_short =
     [0x16, 0x03, 0x03, 0x00, 0x3f,
      0x01, 0x00, 0x00, 0x45, 0x03, 0x03,
      0x00, 0x01, 0x02, 0x03, 0x04, 0x05, 0x06, 0x07, 0x08, 0x09, 0x0a, 0x0b, 0x0c, 0x0d, 0x0e, 0x0f,
      0x10, 0x11, 0x12, 0x13, 0x14, 0x15, 0x16, 0x17, 0x18, 0x19, 0x1a, 0x1b, 0x1c, 0x1d, 0x1e, 0x1f,
      0x00,
      0x00, 0x02, 0x00, 0x2f,
      0x01, 0x00,
      0x00, 0x1a,
      0x00, 0x0b, 0x00, 0x02, 0x01, 0x00,
      0x00, 0x00, 0x00, 0x10, 0x00, 0x0e, 0x00, 0x00, 0x0b,
      0x65,
      0x16, 0x03, 0x03, 0x00, 0x0a,
      0x78, 0x61, 0x6d, 0x70, 0x6c,
      0x00, 0x00, 0x00, 0x00, 0x00]"

text \<open>
  Two SSL 3.0 ClientHello records, one that ends with an empty extensions block and one
  that ends after the compression methods.
\<close>

definition sample_random :: "u8 list" where
  "sample_random =
     [0x00, 0x01, 0x02, 0x03, 0x04, 0x05, 0x06, 0x07, 0x08, 0x09, 0x0a, 0x0b, 0x0c, 0x0d, 0x0e, 0x0f,
      0x10, 0x11, 0x12, 0x13, 0x14, 0x15, 0x16, 0x17, 0x18, 0x19, 0x1a, 0x1b, 0x1c, 0x1d, 0x1e, 0x1f]"

definition ssl3_hello_empty_extensions :: "u8 list" where
  "ssl3_hello_empty_extensions =
     tls_record 3 0 (client_hello [3, 0] sample_random [] [0x00, 0x2f] [0x00] [0, 0])"

definition ssl3_hello_no_extensions :: "u8 list" where
  "ssl3_hello_no_extensions =
     tls_record 3 0 (client_hello [3, 0] sample_random [] [0x00, 0x2f] [0x00] [])"

section \<open>Properties\<close>

declare parse_server_name_extension_loop.simps [simp del]
declare parse_extensions_loop.simps [simp del]

subsection \<open>Reads inside the supplied length succeed\<close>

lemma bnd_Inr [simp]: "bnd (Inr v) f = f v"
  by (simp add: bnd_def)

lemma bnd_Inl [simp]: "bnd (Inl e) f = Inl e"
  by (simp add: bnd_def)

lemma rd_ok: "i < lim \<Longrightarrow> lim \<le> length buf \<Longrightarrow> rd buf lim i = Inr (buf ! i)"
  by (simp add: rd_def)

lemma rd16_ok: "i + 1 < lim \<Longrightarrow> lim \<le> length buf \<Longrightarrow> rd16 buf lim i = Inr (be16 buf i)"
  by (simp add: rd16_def rd_ok be16_def)

lemma is_server_name_ok:
  "i + 1 < lim \<Longrightarrow> lim \<le> length buf \<Longrightarrow>
   is_server_name buf lim i = Inr (buf ! i = 0 \<and> buf ! (i + 1) = 0)"
  by (simp add: is_server_name_def rd_ok)

lemma high_bit: "w AND 0x80 \<noteq> 0 \<longleftrightarrow> bit w 7" for w :: u8
  using and_exp_eq_0_iff_not_bit [of w 7] by simp

text \<open>
  \<open>strncpy\<close>, when its \<open>n\<close> source bytes lie inside the supplied length, reads none
  outside and leaves \<open>c_string_copy\<close> of them.
\<close>

lemma c_string_copy_Nil: "c_string_copy [] = []"
  by (simp add: c_string_copy_def)

lemma c_string_copy_Cons:
  "c_string_copy (b # bs) = (if b = 0 then replicate (Suc (length bs)) 0 else b # c_string_copy bs)"
  by (simp add: c_string_copy_def)

lemma strncpy_ok:
  "src + n \<le> lim \<Longrightarrow> lim \<le> length buf \<Longrightarrow>
   strncpy buf lim src n = Inr (c_string_copy (take n (drop src buf)))"
proof (induction n arbitrary: src)
  case 0
  then show ?case by (simp add: c_string_copy_Nil)
next
  case (Suc n)
  from Suc.prems have lt: "src < lim" "src < length buf" by simp_all
  then have split: "take (Suc n) (drop src buf) = buf ! src # take n (drop (Suc src) buf)"
    by (simp add: take_Suc_conv_app_nth Cons_nth_drop_Suc [symmetric])
  have len: "length (take n (drop (Suc src) buf)) = n"
    using Suc.prems by simp
  from Suc.prems have ih: "strncpy buf lim (Suc src) n = Inr (c_string_copy (take n (drop (Suc src) buf)))"
    using Suc.IH [of "Suc src"] by simp
  show ?case
    using lt Suc.prems by (simp add: rd_ok split c_string_copy_Cons len ih)
qed

lemma c_string_copy_no_zero: "0 \<notin> set bs \<Longrightarrow> c_string_copy bs = bs"
  by (induction bs) (auto simp: c_string_copy_Nil c_string_copy_Cons)

subsection \<open>The loop over the server names\<close>

text \<open>
  The slice \<open>base\<close>, \<open>data_len\<close> handed to a loop lies inside the supplied length. A loop
  that succeeds has found a \<open>host_name\<close> entry at some position \<open>p\<close> of its slice; and
  no loop reads outside the supplied length.
\<close>

lemma sne_loop_Inr:
  assumes "parse_server_name_extension_loop malloc_ok buf lim base data_len old_pos pos = Inr r"
    and "base + data_len \<le> lim" and "lim \<le> length buf"
  shows "\<exists>p. pos \<le> p \<and> p + 3 < data_len \<and> p + 3 + ret_len r \<le> data_len \<and>
             buf ! (base + p) = 0 \<and> ret_len r = be16 buf (base + p + 1) \<and>
             out_modify_pos r = p + 3 + old_pos \<and>
             out_hostname r = c_string_copy (take (ret_len r) (drop (base + p + 3) buf)) @ [0] \<and>
             malloc_ok (ret_len r + 1)"
  using assms
proof (induction malloc_ok buf lim base data_len old_pos pos
       rule: parse_server_name_extension_loop.induct)
  case (1 malloc_ok buf lim base data_len old_pos pos)
  note eq = "1.prems"(1)
  show ?case
  proof (cases "pos + 3 < data_len")
    case False
    with eq show ?thesis
      by (simp add: parse_server_name_extension_loop.simps split: if_splits)
  next
    case True
    define len where "len = be16 buf (base + pos + 1)"
    have r16: "rd16 buf lim (base + pos + 1) = Inr len"
      unfolding len_def using True "1.prems" by (intro rd16_ok) simp_all
    have r8: "rd buf lim (base + pos) = Inr (buf ! (base + pos))"
      using True "1.prems" by (intro rd_ok) simp_all
    show ?thesis
    proof (cases "pos + 3 + len > data_len")
      case True
      with eq \<open>pos + 3 < data_len\<close> r16 show ?thesis
        by (simp add: parse_server_name_extension_loop.simps [of _ _ _ _ _ _ pos])
    next
      case fits: False
      show ?thesis
      proof (cases "buf ! (base + pos) = 0")
        case True
        have cp: "strncpy buf lim (base + pos + 3) len =
                  Inr (c_string_copy (take len (drop (base + pos + 3) buf)))"
          using fits "1.prems" by (intro strncpy_ok) simp_all
        from eq \<open>pos + 3 < data_len\<close> r16 r8 fits True cp
        have "r = \<lparr>ret_len = len,
                   out_hostname = c_string_copy (take len (drop (base + pos + 3) buf)) @ [0],
                   out_modify_pos = pos + 3 + old_pos\<rparr> \<and> malloc_ok (len + 1)"
          by (simp add: parse_server_name_extension_loop.simps [of _ _ _ _ _ _ pos]
                   split: if_splits)
        with True fits \<open>pos + 3 < data_len\<close> show ?thesis
          by (intro exI [of _ pos]) (simp add: len_def)
      next
        case False
        from eq \<open>pos + 3 < data_len\<close> r16 r8 fits False
        have rec: "parse_server_name_extension_loop malloc_ok buf lim base data_len old_pos
                     (pos + 3 + len) = Inr r"
          by (simp add: parse_server_name_extension_loop.simps [of _ _ _ _ _ _ pos])
        have "\<exists>p. pos + 3 + len \<le> p \<and> p + 3 < data_len \<and> p + 3 + ret_len r \<le> data_len \<and>
             buf ! (base + p) = 0 \<and> ret_len r = be16 buf (base + p + 1) \<and>
             out_modify_pos r = p + 3 + old_pos \<and>
             out_hostname r = c_string_copy (take (ret_len r) (drop (base + p + 3) buf)) @ [0] \<and>
             malloc_ok (ret_len r + 1)"
          using "1.IH" [OF \<open>pos + 3 < data_len\<close> r16 _ r8 False rec "1.prems"(2,3)] fits
          by simp
        then show ?thesis by (metis add_leD1)
      qed
    qed
  qed
qed

lemma sne_loop_no_fault:
  assumes "base + data_len \<le> lim" and "lim \<le> length buf"
  shows "parse_server_name_extension_loop malloc_ok buf lim base data_len old_pos pos
           \<notin> {Inl OutOfBounds, Inl Overlap}"
  using assms
proof (induction malloc_ok buf lim base data_len old_pos pos
       rule: parse_server_name_extension_loop.induct)
  case (1 malloc_ok buf lim base data_len old_pos pos)
  show ?case
  proof (cases "pos + 3 < data_len")
    case False
    then show ?thesis
      by (simp add: parse_server_name_extension_loop.simps [of _ _ _ _ _ _ pos])
  next
    case True
    define len where "len = be16 buf (base + pos + 1)"
    have r16: "rd16 buf lim (base + pos + 1) = Inr len"
      unfolding len_def using True "1.prems" by (intro rd16_ok) simp_all
    have r8: "rd buf lim (base + pos) = Inr (buf ! (base + pos))"
      using True "1.prems" by (intro rd_ok) simp_all
    show ?thesis
    proof (cases "pos + 3 + len > data_len")
      case True
      with \<open>pos + 3 < data_len\<close> r16 show ?thesis
        by (simp add: parse_server_name_extension_loop.simps [of _ _ _ _ _ _ pos])
    next
      case fits: False
      show ?thesis
      proof (cases "buf ! (base + pos) = 0")
        case True
        have cp: "strncpy buf lim (base + pos + 3) len =
                  Inr (c_string_copy (take len (drop (base + pos + 3) buf)))"
          using fits "1.prems" by (intro strncpy_ok) simp_all
        from \<open>pos + 3 < data_len\<close> r16 r8 fits True cp show ?thesis
          by (simp add: parse_server_name_extension_loop.simps [of _ _ _ _ _ _ pos])
      next
        case False
        have "parse_server_name_extension_loop malloc_ok buf lim base data_len old_pos
                (pos + 3 + len) \<notin> {Inl OutOfBounds, Inl Overlap}"
          using "1.IH" [OF \<open>pos + 3 < data_len\<close> r16 _ r8 False "1.prems"] fits by simp
        with \<open>pos + 3 < data_len\<close> r16 r8 fits False show ?thesis
          by (simp add: parse_server_name_extension_loop.simps [of _ _ _ _ _ _ pos])
      qed
    qed
  qed
qed

subsection \<open>The loop over the extensions\<close>

lemma ext_loop_Inr:
  assumes "parse_extensions_loop malloc_ok buf lim base data_len old_pos pos = Inr r"
    and "base + data_len \<le> lim" and "lim \<le> length buf"
  shows "\<exists>p len. pos \<le> p \<and> p + 4 + len \<le> data_len \<and>
           buf ! (base + p) = 0 \<and> buf ! (base + p + 1) = 0 \<and> len = be16 buf (base + p + 2) \<and>
           parse_server_name_extension malloc_ok buf lim (base + p + 4) len (p + 4 + old_pos)
             = Inr r"
  using assms
proof (induction malloc_ok buf lim base data_len old_pos pos
       rule: parse_extensions_loop.induct)
  case (1 malloc_ok buf lim base data_len old_pos pos)
  note eq = "1.prems"(1)
  show ?case
  proof (cases "pos + 4 \<le> data_len")
    case False
    with eq show ?thesis
      by (simp add: parse_extensions_loop.simps [of _ _ _ _ _ _ pos] split: if_splits)
  next
    case True
    define len where "len = be16 buf (base + pos + 2)"
    define sn where "sn \<longleftrightarrow> buf ! (base + pos) = 0 \<and> buf ! (base + pos + 1) = 0"
    have r16: "rd16 buf lim (base + pos + 2) = Inr len"
      unfolding len_def using True "1.prems" by (intro rd16_ok) simp_all
    have isn: "is_server_name buf lim (base + pos) = Inr sn"
      unfolding sn_def using True "1.prems" by (intro is_server_name_ok) simp_all
    show ?thesis
    proof (cases sn)
      case True
      with eq \<open>pos + 4 \<le> data_len\<close> r16 isn
      have "pos + 4 + len \<le> data_len \<and>
            parse_server_name_extension malloc_ok buf lim (base + pos + 4) len
              (pos + 4 + old_pos) = Inr r"
        by (simp add: parse_extensions_loop.simps [of _ _ _ _ _ _ pos] split: if_splits)
      with \<open>sn\<close> show ?thesis
        by (intro exI [of _ pos] exI [of _ len]) (simp add: sn_def len_def)
    next
      case False
      with eq \<open>pos + 4 \<le> data_len\<close> r16 isn
      have rec: "parse_extensions_loop malloc_ok buf lim base data_len old_pos (pos + 4 + len)
                   = Inr r"
        by (simp add: parse_extensions_loop.simps [of _ _ _ _ _ _ pos])
      have "\<exists>p l. pos + 4 + len \<le> p \<and> p + 4 + l \<le> data_len \<and>
              buf ! (base + p) = 0 \<and> buf ! (base + p + 1) = 0 \<and> l = be16 buf (base + p + 2) \<and>
              parse_server_name_extension malloc_ok buf lim (base + p + 4) l (p + 4 + old_pos)
                = Inr r"
        using "1.IH" [OF \<open>pos + 4 \<le> data_len\<close> r16 isn False rec "1.prems"(2,3)] .
      then show ?thesis by (metis add_leD1)
    qed
  qed
qed

lemma ext_loop_no_fault:
  assumes "base + data_len \<le> lim" and "lim \<le> length buf"
  shows "parse_extensions_loop malloc_ok buf lim base data_len old_pos pos
           \<notin> {Inl OutOfBounds, Inl Overlap}"
  using assms
proof (induction malloc_ok buf lim base data_len old_pos pos
       rule: parse_extensions_loop.induct)
  case (1 malloc_ok buf lim base data_len old_pos pos)
  show ?case
  proof (cases "pos + 4 \<le> data_len")
    case False
    then show ?thesis
      by (simp add: parse_extensions_loop.simps [of _ _ _ _ _ _ pos])
  next
    case True
    define len where "len = be16 buf (base + pos + 2)"
    define sn where "sn \<longleftrightarrow> buf ! (base + pos) = 0 \<and> buf ! (base + pos + 1) = 0"
    have r16: "rd16 buf lim (base + pos + 2) = Inr len"
      unfolding len_def using True "1.prems" by (intro rd16_ok) simp_all
    have isn: "is_server_name buf lim (base + pos) = Inr sn"
      unfolding sn_def using True "1.prems" by (intro is_server_name_ok) simp_all
    show ?thesis
    proof (cases sn)
      case True
      show ?thesis
      proof (cases "pos + 4 + len > data_len")
        case True
        with \<open>sn\<close> \<open>pos + 4 \<le> data_len\<close> r16 isn show ?thesis
          by (simp add: parse_extensions_loop.simps [of _ _ _ _ _ _ pos])
      next
        case False
        then have "base + pos + 4 + len \<le> lim"
          using "1.prems" by simp
        then have "parse_server_name_extension malloc_ok buf lim (base + pos + 4) len
                     (pos + 4 + old_pos) \<notin> {Inl OutOfBounds, Inl Overlap}"
          unfolding parse_server_name_extension_def
          using "1.prems" by (intro sne_loop_no_fault) simp_all
        with False \<open>sn\<close> \<open>pos + 4 \<le> data_len\<close> r16 isn show ?thesis
          by (simp add: parse_extensions_loop.simps [of _ _ _ _ _ _ pos])
      qed
    next
      case False
      have "parse_extensions_loop malloc_ok buf lim base data_len old_pos (pos + 4 + len)
              \<notin> {Inl OutOfBounds, Inl Overlap}"
        using "1.IH" [OF \<open>pos + 4 \<le> data_len\<close> r16 isn False "1.prems"] .
      with False \<open>pos + 4 \<le> data_len\<close> r16 isn show ?thesis
        by (simp add: parse_extensions_loop.simps [of _ _ _ _ _ _ pos])
    qed
  qed
qed

lemma parse_extensions_Inr:
  assumes "parse_extensions malloc_ok buf lim base data_len base = Inr r"
    and "base + data_len \<le> lim" and "lim \<le> length buf"
  shows "base + 9 \<le> out_modify_pos r \<and>
         out_modify_pos r < base + data_len \<and>
         out_modify_pos r + ret_len r \<le> base + data_len \<and>
         buf ! (out_modify_pos r - 3) = 0 \<and>
         ret_len r = be16 buf (out_modify_pos r - 2) \<and>
         out_hostname r =
           c_string_copy (take (ret_len r) (drop (out_modify_pos r) buf)) @ [0]"
    and "malloc_ok (ret_len r + 1)"
    and "\<exists>x. base \<le> x \<and> buf ! x = 0 \<and> buf ! (x + 1) = 0 \<and>
             x + 9 \<le> out_modify_pos r \<and>
             out_modify_pos r + ret_len r \<le> x + 4 + be16 buf (x + 2) \<and>
             x + 4 + be16 buf (x + 2) \<le> base + data_len"
proof -
  from assms obtain p len where p: "p + 4 + len \<le> data_len"
    and ty: "buf ! (base + p) = 0" "buf ! (base + p + 1) = 0" "len = be16 buf (base + p + 2)"
    and sn: "parse_server_name_extension malloc_ok buf lim (base + p + 4) len (p + 4 + base)
               = Inr r"
    unfolding parse_extensions_def by (blast dest: ext_loop_Inr)
  from p assms have "base + p + 4 + len \<le> lim" by simp
  with sn assms(3) obtain q where q: "2 \<le> q" "q + 3 < len" "q + 3 + ret_len r \<le> len"
    "buf ! (base + p + 4 + q) = 0" "ret_len r = be16 buf (base + p + 4 + q + 1)"
    "out_modify_pos r = q + 3 + (p + 4 + base)"
    "out_hostname r = c_string_copy (take (ret_len r) (drop (base + p + 4 + q + 3) buf)) @ [0]"
    "malloc_ok (ret_len r + 1)"
    unfolding parse_server_name_extension_def by (blast dest: sne_loop_Inr)
  have e: "base + p + 4 + q = out_modify_pos r - 3"
    "base + p + 4 + q + 1 = out_modify_pos r - 2"
    "base + p + 4 + q + 3 = out_modify_pos r"
    using q(6) by simp_all
  have "base + 9 \<le> out_modify_pos r" "out_modify_pos r < base + data_len"
    "out_modify_pos r + ret_len r \<le> base + data_len"
    using q(1,2,3,6) p by simp_all
  moreover have "buf ! (out_modify_pos r - 3) = 0"
    using q(4) by (simp only: e(1))
  moreover have "ret_len r = be16 buf (out_modify_pos r - 2)"
    using q(5) by (simp only: e(2))
  moreover have "out_hostname r =
      c_string_copy (take (ret_len r) (drop (out_modify_pos r) buf)) @ [0]"
    using q(7) by (simp only: e(3))
  ultimately show "base + 9 \<le> out_modify_pos r \<and>
         out_modify_pos r < base + data_len \<and>
         out_modify_pos r + ret_len r \<le> base + data_len \<and>
         buf ! (out_modify_pos r - 3) = 0 \<and>
         ret_len r = be16 buf (out_modify_pos r - 2) \<and>
         out_hostname r =
           c_string_copy (take (ret_len r) (drop (out_modify_pos r) buf)) @ [0]"
    by simp
  show "malloc_ok (ret_len r + 1)"
    by (rule q(8))
  have "base + p + 9 \<le> out_modify_pos r"
    "out_modify_pos r + ret_len r \<le> base + p + 4 + be16 buf (base + p + 2)"
    "base + p + 4 + be16 buf (base + p + 2) \<le> base + data_len"
    using q(1,3,6) p ty(3) by simp_all
  with ty(1,2) show "\<exists>x. base \<le> x \<and> buf ! x = 0 \<and> buf ! (x + 1) = 0 \<and>
             x + 9 \<le> out_modify_pos r \<and>
             out_modify_pos r + ret_len r \<le> x + 4 + be16 buf (x + 2) \<and>
             x + 4 + be16 buf (x + 2) \<le> base + data_len"
    by (intro exI [of _ "base + p"]) simp
qed

lemma parse_extensions_no_fault:
  assumes "base + data_len \<le> lim" and "lim \<le> length buf"
  shows "parse_extensions malloc_ok buf lim base data_len old_pos
           \<notin> {Inl OutOfBounds, Inl Overlap}"
  unfolding parse_extensions_def using assms by (rule ext_loop_no_fault)

lemma parse_extensions_empty:
  "parse_extensions malloc_ok buf lim base 0 old_pos = Inl NoHostname"
  by (simp add: parse_extensions_def parse_extensions_loop.simps)

subsection \<open>The header and the handshake\<close>

text \<open>
  On a buffer that holds the bytes announced every read of \<open>parse_handshake\<close> and of
  \<open>parse_tls_header\<close> is preceded by its check, so both are a chain of comparisons on
  the bytes.
\<close>

lemma parse_handshake_pure:
  assumes "data_len \<le> lim" and "lim \<le> length data"
  shows "parse_handshake malloc_ok data lim data_len vmaj vmin =
     (if data_len < 6 then Inl Malformed
      else if data ! 5 \<noteq> 1 then Inl Malformed
      else if data_len < 44 then Inl Malformed
      else
        let p1 = 44 + unat (data ! 43) in
        if data_len < p1 + 2 then Inl Malformed
        else
          let p2 = p1 + 2 + be16 data p1 in
          if data_len < p2 + 1 then Inl Malformed
          else
            let p3 = p2 + 1 + unat (data ! p2) in
            if p3 = data_len \<and> vmaj = 3 \<and> vmin = 0 then Inl NoHostname
            else if data_len < p3 + 2 then Inl Malformed
            else if data_len < p3 + 2 + be16 data p3 then Inl Malformed
            else parse_extensions malloc_ok data lim (p3 + 2) (be16 data p3) (p3 + 2))"
  using assms
  by (simp add: parse_handshake_def TLS_HEADER_LEN_def TLS_HANDSHAKE_TYPE_CLIENT_HELLO_def
        Let_def rd_ok rd16_ok cong: if_cong)

lemma parse_handshake_at:
  assumes "data_len \<le> lim" and "lim \<le> length data"
    and "44 \<le> data_len" and "data ! 5 = 1"
    and "p1 = 44 + unat (data ! 43)" and "p1 + 2 \<le> data_len"
    and "p2 = p1 + 2 + be16 data p1" and "p2 + 1 \<le> data_len"
    and "p3 = p2 + 1 + unat (data ! p2)"
  shows "parse_handshake malloc_ok data lim data_len vmaj vmin =
     (if p3 = data_len \<and> vmaj = 3 \<and> vmin = 0 then Inl NoHostname
      else if data_len < p3 + 2 then Inl Malformed
      else if data_len < p3 + 2 + be16 data p3 then Inl Malformed
      else parse_extensions malloc_ok data lim (p3 + 2) (be16 data p3) (p3 + 2))"
  using assms by (simp add: parse_handshake_pure Let_def)

lemma parse_tls_header_pure:
  assumes "5 \<le> data_len" and "data_len \<le> length data"
  shows "parse_tls_header True malloc_ok data data_len =
     (if data ! 0 AND 0x80 \<noteq> 0 \<and> data ! 2 = 1 then Inl NoHostname
      else if data ! 0 \<noteq> 0x16 then Inl Malformed
      else if data ! 1 < 3 then Inl NoHostname
      else if data_len < be16 data 3 + 5 then Inl Incomplete
      else parse_handshake malloc_ok data data_len (be16 data 3 + 5) (data ! 1) (data ! 2))"
  using assms
  by (simp add: parse_tls_header_def ssl2_client_hello_def TLS_HEADER_LEN_def
        TLS_HANDSHAKE_CONTENT_TYPE_def Let_def rd_ok rd16_ok min_def)

lemma parse_handshake_Inr:
  assumes "parse_handshake malloc_ok data lim data_len vmaj vmin = Inr r"
    and "data_len \<le> lim" and "lim \<le> length data"
  shows "\<exists>pos len. 49 \<le> pos \<and> pos + len \<le> data_len \<and>
           parse_extensions malloc_ok data lim pos len pos = Inr r"
proof -
  define p1 where "p1 = 44 + unat (data ! 43)"
  define p2 where "p2 = p1 + 2 + be16 data p1"
  define p3 where "p3 = p2 + 1 + unat (data ! p2)"
  from assms have "p3 + 2 + be16 data p3 \<le> data_len \<and>
      parse_extensions malloc_ok data lim (p3 + 2) (be16 data p3) (p3 + 2) = Inr r"
    by (simp add: parse_handshake_pure Let_def p1_def p2_def p3_def split: if_splits)
  moreover have "49 \<le> p3 + 2"
    by (simp add: p1_def p2_def p3_def)
  ultimately show ?thesis
    by (intro exI [of _ "p3 + 2"] exI [of _ "be16 data p3"]) simp
qed

lemma parse_tls_header_Inr:
  assumes "parse_tls_header hostname_slot malloc_ok data data_len = Inr r"
    and "data_len \<le> length data"
  shows "be16 data 3 + 5 \<le> data_len \<and>
         58 \<le> out_modify_pos r \<and>
         out_modify_pos r < be16 data 3 + 5 \<and>
         out_modify_pos r + ret_len r \<le> be16 data 3 + 5 \<and>
         data ! (out_modify_pos r - 3) = 0 \<and>
         ret_len r = be16 data (out_modify_pos r - 2) \<and>
         out_hostname r =
           c_string_copy (take (ret_len r) (drop (out_modify_pos r) data)) @ [0]"
proof -
  from assms(1) have slot: hostname_slot and l5: "5 \<le> data_len"
    by (auto simp: parse_tls_header_def TLS_HEADER_LEN_def split: if_splits)
  from assms slot l5 have rl: "be16 data 3 + 5 \<le> data_len"
    and hs: "parse_handshake malloc_ok data data_len (be16 data 3 + 5) (data ! 1) (data ! 2)
               = Inr r"
    by (simp_all add: parse_tls_header_pure split: if_splits)
  from hs rl assms(2) obtain pos len where pos: "49 \<le> pos" "pos + len \<le> be16 data 3 + 5"
    and ex: "parse_extensions malloc_ok data data_len pos len pos = Inr r"
    by (blast dest: parse_handshake_Inr)
  from pos rl have "pos + len \<le> data_len" by simp
  from parse_extensions_Inr(1) [OF ex this assms(2)] pos rl show ?thesis
    by simp
qed

lemma parse_tls_header_Inr_entry:
  assumes "parse_tls_header hostname_slot malloc_ok data data_len = Inr r"
    and "data_len \<le> length data"
  shows "malloc_ok (ret_len r + 1)"
    and "\<exists>x. 49 \<le> x \<and> data ! x = 0 \<and> data ! (x + 1) = 0 \<and>
             x + 9 \<le> out_modify_pos r \<and>
             out_modify_pos r + ret_len r \<le> x + 4 + be16 data (x + 2) \<and>
             x + 4 + be16 data (x + 2) \<le> be16 data 3 + 5"
proof -
  from assms(1) have slot: hostname_slot and l5: "5 \<le> data_len"
    by (auto simp: parse_tls_header_def TLS_HEADER_LEN_def split: if_splits)
  from assms slot l5 have rl: "be16 data 3 + 5 \<le> data_len"
    and hs: "parse_handshake malloc_ok data data_len (be16 data 3 + 5) (data ! 1) (data ! 2)
               = Inr r"
    by (simp_all add: parse_tls_header_pure split: if_splits)
  from hs rl assms(2) obtain pos len where pos: "49 \<le> pos" "pos + len \<le> be16 data 3 + 5"
    and ex: "parse_extensions malloc_ok data data_len pos len pos = Inr r"
    by (blast dest: parse_handshake_Inr)
  from pos rl have fit: "pos + len \<le> data_len" by simp
  show "malloc_ok (ret_len r + 1)"
    by (rule parse_extensions_Inr(2) [OF ex fit assms(2)])
  from parse_extensions_Inr(3) [OF ex fit assms(2)]
  obtain x where "pos \<le> x" "data ! x = 0" "data ! (x + 1) = 0" "x + 9 \<le> out_modify_pos r"
    "out_modify_pos r + ret_len r \<le> x + 4 + be16 data (x + 2)"
    "x + 4 + be16 data (x + 2) \<le> pos + len"
    by blast
  with pos show "\<exists>x. 49 \<le> x \<and> data ! x = 0 \<and> data ! (x + 1) = 0 \<and>
             x + 9 \<le> out_modify_pos r \<and>
             out_modify_pos r + ret_len r \<le> x + 4 + be16 data (x + 2) \<and>
             x + 4 + be16 data (x + 2) \<le> be16 data 3 + 5"
    by (intro exI [of _ x]) simp
qed

lemma parse_handshake_no_fault:
  assumes "data_len \<le> lim" and "lim \<le> length data"
  shows "parse_handshake malloc_ok data lim data_len vmaj vmin
           \<notin> {Inl OutOfBounds, Inl Overlap}"
proof -
  have "parse_extensions malloc_ok data lim pos len pos \<notin> {Inl OutOfBounds, Inl Overlap}"
    if "\<not> data_len < pos + len" for pos len
    using that assms by (intro parse_extensions_no_fault) simp_all
  then show ?thesis
    using assms by (simp add: parse_handshake_pure Let_def)
qed

lemma parse_tls_header_no_fault:
  assumes "data_len \<le> length data"
  shows "parse_tls_header hostname_slot malloc_ok data data_len
           \<notin> {Inl OutOfBounds, Inl Overlap}"
proof (cases "hostname_slot \<and> 5 \<le> data_len")
  case False
  then show ?thesis
    by (auto simp: parse_tls_header_def TLS_HEADER_LEN_def)
next
  case True
  have "parse_handshake malloc_ok data data_len (be16 data 3 + 5) (data ! 1) (data ! 2)
          \<notin> {Inl OutOfBounds, Inl Overlap}"
    if "\<not> data_len < be16 data 3 + 5"
    using that assms by (intro parse_handshake_no_fault) simp_all
  with True assms show ?thesis
    by (simp add: parse_tls_header_pure)
qed

subsection \<open>A ClientHello without extensions\<close>

lemma mod_split_16: "v mod 65536 div 256 * 256 + v mod 256 = v mod 65536" for v :: nat
proof -
  have "v mod 65536 mod 256 = v mod 256"
    by (simp add: mod_mod_cancel)
  then show ?thesis
    using div_mult_mod_eq [of "v mod 65536" 256] by simp
qed

lemma length_htons_bytes: "length (htons_bytes v) = 2"
  by (simp add: htons_bytes_def)

lemma be16_htons_bytes:
  assumes "length xs = i"
  shows "be16 (xs @ htons_bytes v @ ys) i = v mod 65536"
proof -
  have "v mod 65536 div 256 < 256"
    by (simp add: less_mult_imp_div_less)
  then have hi: "unat (of_nat (v mod 65536 div 256) :: u8) = v mod 65536 div 256"
    by (simp add: unat_of_nat)
  have lo: "unat (of_nat (v mod 256) :: u8) = v mod 256"
    by (simp add: unat_of_nat)
  from assms hi lo show ?thesis
    by (simp add: be16_def htons_bytes_def nth_append mod_split_16)
qed

lemma be16_less: "be16 buf i < 65536"
proof -
  have "unat (buf ! i) < 256" "unat (buf ! (i + 1)) < 256"
    using unsigned_less [of "buf ! i", where ?'a = nat]
      unsigned_less [of "buf ! (i + 1)", where ?'a = nat] by simp_all
  then show ?thesis
    unfolding be16_def by linarith
qed

lemma unat_byte_length: "n \<le> 255 \<Longrightarrow> unat (of_nat n :: u8) = n"
  by (simp add: unat_of_nat)

lemma ssl3_hello_layout:
  fixes pre sid cs cm tail rest :: "u8 list"
  assumes pre: "length pre = 43" "pre ! 0 = 0x16" "pre ! 1 = 3" "pre ! 2 = 0"
      "be16 pre 3 = 38 + length (of_nat (length sid) # sid @ htons_bytes (length cs) @ cs @
                                   of_nat (length cm) # cm @ tail)"
      "pre ! 5 = 1"
    and sizes: "length sid \<le> 255" "length cs \<le> 65535" "length cm \<le> 255"
    and tail: "tail = [] \<or> tail = [0, 0]"
    and data: "data = pre @ of_nat (length sid) # sid @ htons_bytes (length cs) @ cs @
                      of_nat (length cm) # cm @ tail @ rest"
  shows "parse_tls_header True malloc_ok data (length data) = Inl NoHostname"
proof -
  define p1 where "p1 = 44 + length sid"
  define p2 where "p2 = p1 + 2 + length cs"
  define p3 where "p3 = p2 + 1 + length cm"
  have len: "length data = p3 + length tail + length rest"
    by (simp add: data pre p1_def p2_def p3_def length_htons_bytes)
  have low: "data ! 0 = 0x16" "data ! 1 = 3" "data ! 2 = 0" "data ! 5 = 1"
    "be16 data 3 = p3 + length tail - 5"
    using pre by (simp_all add: data nth_append be16_def p1_def p2_def p3_def length_htons_bytes)
  have b43: "unat (data ! 43) = length sid"
    using pre(1) sizes(1) by (simp add: data nth_append unat_byte_length)
  have "data = (pre @ of_nat (length sid) # sid) @ htons_bytes (length cs) @
                 (cs @ of_nat (length cm) # cm @ tail @ rest)"
    by (simp add: data)
  moreover have "length (pre @ of_nat (length sid) # sid) = p1"
    by (simp add: pre p1_def)
  ultimately have bp1: "be16 data p1 = length cs"
    using be16_htons_bytes [of "pre @ of_nat (length sid) # sid" p1 "length cs"] sizes(2)
    by simp
  have "data = (pre @ of_nat (length sid) # sid @ htons_bytes (length cs) @ cs) @
                 of_nat (length cm) # (cm @ tail @ rest)"
    by (simp add: data)
  moreover have "length (pre @ of_nat (length sid) # sid @ htons_bytes (length cs) @ cs) = p2"
    by (simp add: pre p1_def p2_def length_htons_bytes)
  ultimately have "data ! p2 = of_nat (length cm)"
    by (metis nth_append_length)
  then have bp2: "unat (data ! p2) = length cm"
    using sizes(3) by (simp add: unat_byte_length)
  define A where "A = pre @ of_nat (length sid) # sid @ htons_bytes (length cs) @ cs @
                 of_nat (length cm) # cm"
  have dA: "data = A @ tail @ rest"
    by (simp add: data A_def)
  have lA: "length A = p3"
    by (simp add: A_def pre p1_def p2_def p3_def length_htons_bytes)
  have "data ! (length A + i) = (tail @ rest) ! i" for i
    unfolding dA by (rule nth_append_length_plus)
  from this [of 0] this [of 1] have bp3: "tail = [0, 0] \<Longrightarrow> be16 data p3 = 0"
    by (simp add: be16_def lA)
  have p3: "47 \<le> p3"
    by (simp add: p1_def p2_def p3_def)
  have "parse_handshake malloc_ok data (length data) (p3 + length tail) 3 0 =
     (if p3 = p3 + length tail \<and> (3 :: u8) = 3 \<and> (0 :: u8) = 0 then Inl NoHostname
      else if p3 + length tail < p3 + 2 then Inl Malformed
      else if p3 + length tail < p3 + 2 + be16 data p3 then Inl Malformed
      else parse_extensions malloc_ok data (length data) (p3 + 2) (be16 data p3) (p3 + 2))"
  proof (rule parse_handshake_at)
    show "p3 + length tail \<le> length data" by (simp add: len)
    show "44 \<le> p3 + length tail" using p3 by simp
    show "data ! 5 = 1" by (rule low)
    show "p1 = 44 + unat (data ! 43)" by (simp add: p1_def b43)
    show "p1 + 2 \<le> p3 + length tail" by (simp add: p2_def p3_def)
    show "p2 = p1 + 2 + be16 data p1" by (simp add: p2_def bp1)
    show "p2 + 1 \<le> p3 + length tail" by (simp add: p3_def)
    show "p3 = p2 + 1 + unat (data ! p2)" by (simp add: p3_def bp2)
  qed simp
  with tail bp3 have hs:
    "parse_handshake malloc_ok data (length data) (p3 + length tail) 3 0 = Inl NoHostname"
    by (auto simp: parse_extensions_empty)
  have "5 \<le> length data"
    using p3 len by simp
  moreover have "data ! Suc 0 = 3"
    using low(2) by simp
  moreover have "p3 + length tail - 5 + 5 = p3 + length tail"
    using p3 by simp
  ultimately show ?thesis
    using hs by (simp add: parse_tls_header_pure low len)
qed

subsection \<open>The splitter on a buffer cut into its parts\<close>

text \<open>
  The buffer is cut into the three bytes \<open>h\<close> of content type and version, the two
  length bytes, the payload \<open>p1\<close> up to the split point, the payload \<open>p2\<close> behind it, the
  last five bytes \<open>x\<close> below \<open>data_len\<close>, which the shift overwrites, and the bytes \<open>t\<close>
  from \<open>data_len\<close> on.
\<close>

lemma store_htons_append:
  assumes "length xs = i"
  shows "store_htons (xs @ a # b # ys) i v = Inr (xs @ htons_bytes v @ ys)"
  using assms by (auto simp add: store_htons_def htons_bytes_def list_update_append)

lemma modify_tls_header_parts:
  assumes "length h = 3" and "length x = 5" and "1 \<le> length p1" and "length p1 + 5 < 2 ^ 64"
  shows "modify_tls_header (h @ a # b # p1 @ p2 @ x @ t) (10 + length p1 + length p2)
           (length p1 + 4) =
         Inr (h @ htons_bytes (length p1) @ p1 @
              h @ htons_bytes (size_t_sub (unat a * 256 + unat b) (length p1)) @ p2 @ t)"
proof -
  let ?data = "h @ a # b # p1 @ p2 @ x @ t"
  let ?split = "length p1 + 5"
  let ?d1 = "h @ a # b # p1 @ take 5 (p2 @ x) @ p2 @ t"
  let ?d2 = "h @ a # b # p1 @ h @ a # b # p2 @ t"
  let ?d3 = "h @ htons_bytes (length p1) @ p1 @ h @ a # b # p2 @ t"
  have sp: "(length p1 + 4 + 1) mod 2 ^ 64 = ?split"
    using assms by simp
  have n: "size_t_sub (size_t_sub (10 + length p1 + length p2) 5) ?split = length p2"
    by (simp add: size_t_sub_def)
  have p1: "size_t_sub ?split 5 = length p1"
    by (simp add: size_t_sub_def)
  have mv: "memmove ?data (5 + ?split) ?split (length p2) = Inr ?d1"
    using assms by (simp add: memmove_def take_Cons' drop_Cons')
  have cp: "memcpy ?d1 ?split 0 5 = Inr ?d2"
    using assms by (simp add: memcpy_def take_Cons' drop_Cons')
  have rl: "rd16 ?d2 (length ?d2) 3 = Inr (unat a * 256 + unat b)"
    using assms by (simp add: rd16_def rd_def nth_append)
  have s1: "store_htons ?d2 3 (length p1) = Inr ?d3"
    using assms by (simp add: store_htons_append)
  have "?d3 = (h @ htons_bytes (length p1) @ p1 @ h) @ a # b # p2 @ t"
    by simp
  moreover have "length (h @ htons_bytes (length p1) @ p1 @ h) = ?split + 3"
    using assms by (simp add: htons_bytes_def)
  ultimately have s2: "store_htons ?d3 (?split + 3) v =
      Inr (h @ htons_bytes (length p1) @ p1 @ h @ htons_bytes v @ p2 @ t)" for v
    using store_htons_append [of "h @ htons_bytes (length p1) @ p1 @ h" "?split + 3" a b "p2 @ t" v]
    by simp
  show ?thesis
    unfolding modify_tls_header_def sp Let_def n p1 mv bnd_Inr cp rl s1 s2 ..
qed

lemma modify_tls_header_shape:
  assumes "5 \<le> M" and "M + 6 \<le> dl" and "dl \<le> length data" and "M + 1 < 2 ^ 64"
  shows "modify_tls_header data dl M =
         Inr (take 3 data @ htons_bytes (M - 4) @ take (M - 4) (drop 5 data) @
              take 3 data @ htons_bytes (size_t_sub (be16 data 3) (M - 4)) @
              take (dl - 6 - M) (drop (M + 1) data) @ drop dl data)"
proof -
  define h where "h = take 3 data"
  define p1 where "p1 = take (M - 4) (drop 5 data)"
  define p2 where "p2 = take (dl - 6 - M) (drop (M + 1) data)"
  define x where "x = take 5 (drop (dl - 5) data)"
  define t where "t = drop dl data"
  have len: "length h = 3" "length p1 = M - 4" "length p2 = dl - 6 - M" "length x = 5"
    using assms by (simp_all add: h_def p1_def p2_def x_def)
  have "5 + (dl - 5) = dl"
    using assms by simp
  then have "drop 5 (drop (dl - 5) data) = t"
    by (simp only: drop_drop t_def)
  then have e7: "x @ t = drop (dl - 5) data"
    using append_take_drop_id [of 5 "drop (dl - 5) data"] by (simp only: x_def)
  have "dl - 6 - M + (M + 1) = dl - 5"
    using assms by simp
  then have "drop (dl - 6 - M) (drop (M + 1) data) = drop (dl - 5) data"
    by (simp only: drop_drop)
  then have e6: "p2 @ x @ t = drop (M + 1) data"
    using append_take_drop_id [of "dl - 6 - M" "drop (M + 1) data"] by (simp only: p2_def e7)
  have "M - 4 + 5 = M + 1"
    using assms by simp
  then have "drop (M - 4) (drop 5 data) = drop (M + 1) data"
    by (simp only: drop_drop)
  then have e5: "p1 @ p2 @ x @ t = drop 5 data"
    using append_take_drop_id [of "M - 4" "drop 5 data"] by (simp only: p1_def e6)
  have e4: "data ! 4 # p1 @ p2 @ x @ t = drop 4 data"
    using assms Cons_nth_drop_Suc [of 4 data] by (simp add: e5)
  have e3: "data ! 3 # data ! 4 # p1 @ p2 @ x @ t = drop 3 data"
    using assms Cons_nth_drop_Suc [of 3 data] by (simp add: e4)
  have data: "h @ data ! 3 # data ! 4 # p1 @ p2 @ x @ t = data"
    by (simp only: e3 h_def append_take_drop_id)
  have args: "10 + (M - 4) + (dl - 6 - M) = dl" "M - 4 + 4 = M"
    using assms by simp_all
  have "modify_tls_header (h @ data ! 3 # data ! 4 # p1 @ p2 @ x @ t)
          (10 + length p1 + length p2) (length p1 + 4) =
        Inr (h @ htons_bytes (length p1) @ p1 @
             h @ htons_bytes (size_t_sub (unat (data ! 3) * 256 + unat (data ! 4)) (length p1)) @
             p2 @ t)"
    using assms len by (intro modify_tls_header_parts) simp_all
  then have "modify_tls_header data dl M =
        Inr (h @ htons_bytes (M - 4) @ p1 @
             h @ htons_bytes (size_t_sub (unat (data ! 3) * 256 + unat (data ! 4)) (M - 4)) @
             p2 @ t)"
    by (simp only: data args len)
  then show ?thesis
    by (simp only: h_def p1_def p2_def t_def be16_def One_nat_def [symmetric])
       (simp add: numeral_eq_Suc)
qed

lemma two_records:
  assumes d: "d = h @ htons_bytes v1 @ p1 @ h @ htons_bytes v2 @ q"
    and h: "length h = 3" and p1: "length p1 = v1" and v1: "v1 < 65536" and v2: "v2 < 65536"
  shows "record_length d 0 = v1" and "record_payload d 0 = p1"
    and "record_length d (5 + v1) = v2" and "record_payload d (5 + v1) = take v2 q"
    and "take 3 d = h" and "take 3 (drop (5 + v1) d) = h"
    and "length d = 10 + v1 + length q"
proof -
  show l1: "record_length d 0 = v1"
    using be16_htons_bytes [of h 3 v1 "p1 @ h @ htons_bytes v2 @ q"] h v1
    by (simp add: record_length_def d)
  have "drop 5 d = p1 @ h @ htons_bytes v2 @ q"
    by (simp add: d h length_htons_bytes)
  then show "record_payload d 0 = p1"
    by (simp add: record_payload_def l1 p1)
  have d': "d = (h @ htons_bytes v1 @ p1 @ h) @ htons_bytes v2 @ q"
    by (simp add: d)
  have len: "length (h @ htons_bytes v1 @ p1 @ h) = 5 + v1 + 3"
    by (simp add: h p1 length_htons_bytes)
  show l2: "record_length d (5 + v1) = v2"
    using be16_htons_bytes [OF len, of v2 q] v2
    by (simp add: record_length_def d' del: append_assoc)
  have "drop (5 + v1 + 5) d = q"
    by (simp add: d h p1 length_htons_bytes)
  then show "record_payload d (5 + v1) = take v2 q"
    by (simp add: record_payload_def l2)
  show "take 3 d = h"
    by (simp add: d h)
  have "drop (5 + v1) d = h @ htons_bytes v2 @ q"
    by (simp add: d h p1 length_htons_bytes)
  then show "take 3 (drop (5 + v1) d) = h"
    by (simp add: h)
  show "length d = 10 + v1 + length q"
    by (simp add: d h p1 length_htons_bytes)
qed

lemma modify_after_parse:
  assumes "parse_tls_header hostname_slot malloc_ok data data_len = Inr r"
    and "data_len \<le> length data"
    and "out_modify_pos r + 6 \<le> new_len" and "new_len \<le> length data"
  shows "modify_tls_header data new_len (out_modify_pos r) =
         Inr (take 3 data @ htons_bytes (out_modify_pos r - 4) @
              take (out_modify_pos r - 4) (drop 5 data) @
              take 3 data @ htons_bytes (record_length data 0 - (out_modify_pos r - 4)) @
              take (new_len - 6 - out_modify_pos r) (drop (out_modify_pos r + 1) data) @
              drop new_len data)"
    and "58 \<le> out_modify_pos r"
    and "out_modify_pos r - 4 \<le> record_length data 0"
proof -
  note p = parse_tls_header_Inr [OF assms(1,2)]
  have rl: "record_length data 0 = be16 data 3"
    by (simp add: record_length_def)
  from p have m: "58 \<le> out_modify_pos r" and lt: "out_modify_pos r < be16 data 3 + 5"
    by simp_all
  from m show "58 \<le> out_modify_pos r" .
  from lt show le: "out_modify_pos r - 4 \<le> record_length data 0"
    by (simp add: rl)
  have "be16 data 3 < 65536"
    by (rule be16_less)
  with lt have "out_modify_pos r + 1 < 2 ^ 64"
    by simp
  moreover note assms(3)
  moreover from m have "5 \<le> out_modify_pos r"
    by simp
  ultimately have "modify_tls_header data new_len (out_modify_pos r) =
         Inr (take 3 data @ htons_bytes (out_modify_pos r - 4) @
              take (out_modify_pos r - 4) (drop 5 data) @
              take 3 data @ htons_bytes (size_t_sub (be16 data 3) (out_modify_pos r - 4)) @
              take (new_len - 6 - out_modify_pos r) (drop (out_modify_pos r + 1) data) @
              drop new_len data)"
    using assms(4) by (intro modify_tls_header_shape)
  moreover have "size_t_sub (be16 data 3) (out_modify_pos r - 4) =
                 record_length data 0 - (out_modify_pos r - 4)"
    using le by (simp add: size_t_sub_def rl)
  ultimately show "modify_tls_header data new_len (out_modify_pos r) =
         Inr (take 3 data @ htons_bytes (out_modify_pos r - 4) @
              take (out_modify_pos r - 4) (drop 5 data) @
              take 3 data @ htons_bytes (record_length data 0 - (out_modify_pos r - 4)) @
              take (new_len - 6 - out_modify_pos r) (drop (out_modify_pos r + 1) data) @
              drop new_len data)"
    by simp
qed

subsection \<open>The sample inputs, evaluated\<close>

lemmas parser_defs =
  parse_tls_header_def parse_handshake_def parse_extensions_def
  parse_server_name_extension_def parse_extensions_loop.simps
  parse_server_name_extension_loop.simps strncpy_ok c_string_copy_Cons c_string_copy_Nil
  ssl2_client_hello_def
  is_server_name_def rd16_def rd_def TLS_HEADER_LEN_def TLS_HANDSHAKE_CONTENT_TYPE_def
  TLS_HANDSHAKE_TYPE_CLIENT_HELLO_def

lemmas splitter_defs =
  modify_tls_header_def memmove_def memcpy_def store_htons_def size_t_sub_def rd16_def rd_def

lemma example_com_parse:
  "parse_tls_header True (\<lambda>n. True) example_com_hello 78 =
     Inr \<lparr>ret_len = 11, out_hostname = map of_char ''example.com'' @ [0],
          out_modify_pos = 67\<rparr>"
  by (simp add: example_com_hello_def parser_defs)

lemma nul_name_parse:
  "parse_tls_header True (\<lambda>n. True) nul_name_hello 64 =
     Inr \<lparr>ret_len = 3, out_hostname = [0x61, 0, 0, 0], out_modify_pos = 61\<rparr>"
  by (simp add: nul_name_hello_def parser_defs)

lemma example_com_buffer_parse:
  "parse_tls_header True (\<lambda>n. True) example_com_buffer 78 =
     Inr \<lparr>ret_len = 11, out_hostname = map of_char ''example.com'' @ [0],
          out_modify_pos = 67\<rparr>"
  by (simp add: example_com_buffer_def example_com_hello_def parser_defs)

lemma example_com_buffer_split:
  "modify_tls_header example_com_buffer 83 67 = Inr example_com_split"
  by (simp add: example_com_buffer_def example_com_hello_def example_com_split_def splitter_defs)

lemma example_com_buffer_split_short:
  "modify_tls_header example_com_buffer 78 67 = Inr example_com_split_short"
  by (simp add: example_com_buffer_def example_com_hello_def example_com_split_short_def
        splitter_defs)

lemma nul_name_split:
  "modify_tls_header nul_name_hello 64 61 = Inl OutOfBounds"
  by (simp add: nul_name_hello_def splitter_defs)

section \<open>The claims\<close>

text \<open>
  Claim C1. For every buffer and every length, the parser reads only bytes at indices
  strictly below the supplied length. In the model every read of \<open>parse_tls_header\<close>,
  \<open>parse_extensions\<close> and \<open>parse_server_name_extension\<close>, and every read of \<open>strncpy\<close>,
  goes through \<open>rd\<close> with the length the caller supplied, and an index at or beyond
  that length gives \<open>OutOfBounds\<close>. Whatever the bytes, the hostname slot and the
  allocator, a buffer that holds the \<open>data_len\<close> bytes announced never leads to
  \<open>OutOfBounds\<close>.
\<close>

theorem parse_tls_header_reads_in_bounds:
  assumes "data_len \<le> length data"
  shows "parse_tls_header hostname_slot malloc_ok data data_len \<noteq> Inl OutOfBounds"
  using parse_tls_header_no_fault [OF assms, of hostname_slot malloc_ok] by simp

text \<open>
  A record that declares one byte of payload, a ClientHello type byte and nothing else:
  the parser stops at the check before the session identifier.
\<close>

theorem parse_tls_header_reads_in_bounds_witness:
  "6 \<le> length [0x16, 3, 1, 0, 1, 1 :: u8] \<and>
   parse_tls_header True (\<lambda>n. True) [0x16, 3, 1, 0, 1, 1] 6 \<noteq> Inl OutOfBounds \<and>
   parse_tls_header True (\<lambda>n. True) [0x16, 3, 1, 0, 1, 1] 6 = Inl Malformed"
  using parse_tls_header_reads_in_bounds [of 6 "[0x16, 3, 1, 0, 1, 1]" True "\<lambda>n. True"]
  by (simp add: parser_defs)

text \<open>
  Beyond the claims: without a hostname slot (\<open>hostname == NULL\<close>) the parser returns
  \<open>InvalidHostnamePointer\<close> before it looks at the buffer. The claims on the return
  codes \<open>Incomplete\<close>, \<open>NoHostname\<close> and \<open>Malformed\<close> below are therefore stated for a
  call with a slot.
\<close>

theorem parse_tls_header_null_hostname:
  "parse_tls_header False malloc_ok data data_len = Inl InvalidHostnamePointer"
  by (simp add: parse_tls_header_def)

text \<open>
  Claim C2. On success the parser returns the declared name length \<open>L\<close> and stores a
  string of \<open>L + 1\<close> bytes: exactly the \<open>L\<close> name bytes of the input and a terminating
  zero. The code departs from this on a name with a zero byte. On the ClientHello whose
  \<open>host_name\<close> entry declares the three bytes \<open>0x61 0x00 0x62\<close> at offset 61 it succeeds
  and returns 3, and the string it stores is \<open>0x61\<close> and three zeros: \<open>strncpy\<close> (line 257)
  stops copying at the first zero byte of the name.
\<close>

theorem parse_tls_header_nul_name_truncated:
  "parse_tls_header True (\<lambda>n. True) nul_name_hello 64 =
     Inr \<lparr>ret_len = 3, out_hostname = [0x61, 0, 0, 0], out_modify_pos = 61\<rparr> \<and>
   return_code (parse_tls_header True (\<lambda>n. True) nul_name_hello 64) = Some 3 \<and>
   take 3 (drop 61 nul_name_hello) = [0x61, 0, 0x62] \<and>
   [0x61, 0, 0, 0] \<noteq> take 3 (drop 61 nul_name_hello) @ [0 :: u8]"
  by (simp add: nul_name_parse) (simp add: nul_name_hello_def)

text \<open>
  Beyond the claims: what claim C2 says holds for every name without a zero byte. When the
  parser succeeds on a buffer that holds the \<open>data_len\<close> bytes announced, with the
  length \<open>L\<close> and the offset \<open>M\<close>, then \<open>L\<close> is the length declared by a \<open>host_name\<close> entry
  (type byte 0 at \<open>M - 3\<close>, big-endian length at \<open>M - 2\<close>) whose \<open>L\<close> name bytes start at
  \<open>M\<close> and lie in the body of an extension of type \<open>0x0000\<close> of the record, behind the
  2-byte list length; \<open>malloc\<close> was asked for \<open>L + 1\<close> bytes and gave them; and if none of
  the name bytes is zero, the string stored is these \<open>L\<close> bytes and a terminating zero.
\<close>

theorem parse_tls_header_zero_free_name:
  assumes "parse_tls_header hostname_slot malloc_ok data data_len = Inr r"
    and "data_len \<le> length data"
    and "0 \<notin> set (name_bytes data r)"
  shows "3 \<le> out_modify_pos r \<and>
         data ! (out_modify_pos r - 3) = 0 \<and>
         ret_len r = be16 data (out_modify_pos r - 2) \<and>
         return_code (Inr r) = Some (int (ret_len r)) \<and>
         length (name_bytes data r) = ret_len r \<and>
         malloc_ok (ret_len r + 1) \<and>
         out_hostname r = name_bytes data r @ [0] \<and>
         (\<exists>x. 49 \<le> x \<and> data ! x = 0 \<and> data ! (x + 1) = 0 \<and>
              x + 9 \<le> out_modify_pos r \<and>
              out_modify_pos r + ret_len r \<le> x + 4 + be16 data (x + 2) \<and>
              x + 4 + be16 data (x + 2) \<le> 5 + record_length data 0)"
proof -
  note p = parse_tls_header_Inr [OF assms(1,2)]
  note e = parse_tls_header_Inr_entry [OF assms(1,2)]
  from p assms(2) have "out_modify_pos r + ret_len r \<le> length data"
    by linarith
  then have len: "length (name_bytes data r) = ret_len r"
    by (simp add: name_bytes_def)
  from p have "out_hostname r = c_string_copy (name_bytes data r) @ [0]"
    by (simp add: name_bytes_def)
  with assms(3) have h: "out_hostname r = name_bytes data r @ [0]"
    by (simp add: c_string_copy_no_zero)
  from p have m: "3 \<le> out_modify_pos r" and tag: "data ! (out_modify_pos r - 3) = 0"
    and l: "ret_len r = be16 data (out_modify_pos r - 2)"
    by simp_all
  have rc: "return_code (Inr r) = Some (int (ret_len r))"
    by simp
  from e(2) have x: "\<exists>x. 49 \<le> x \<and> data ! x = 0 \<and> data ! (x + 1) = 0 \<and>
              x + 9 \<le> out_modify_pos r \<and>
              out_modify_pos r + ret_len r \<le> x + 4 + be16 data (x + 2) \<and>
              x + 4 + be16 data (x + 2) \<le> 5 + record_length data 0"
    by (simp add: record_length_def add.commute)
  from m tag l rc len e(1) h x show ?thesis
    by blast
qed

text \<open>
  The host name \<open>example.com\<close>: the parser returns 11, the string \<open>example.com\<close> with
  its terminating zero, and the offset 67 of the first \<open>e\<close>; the entry is in the
  \<open>server_name\<close> extension at offset 58.
\<close>

theorem parse_tls_header_zero_free_name_witness:
  "parse_tls_header True (\<lambda>n. True) example_com_hello 78 =
     Inr \<lparr>ret_len = 11, out_hostname = map of_char ''example.com'' @ [0],
          out_modify_pos = 67\<rparr> \<and>
   78 \<le> length example_com_hello \<and>
   return_code (parse_tls_header True (\<lambda>n. True) example_com_hello 78) = Some 11 \<and>
   be16 example_com_hello 65 = 11 \<and>
   example_com_hello ! 64 = 0 \<and>
   take 11 (drop 67 example_com_hello) = map of_char ''example.com'' \<and>
   0 \<notin> set (map of_char ''example.com'' :: u8 list) \<and>
   example_com_hello ! 58 = 0 \<and> example_com_hello ! 59 = 0 \<and>
   be16 example_com_hello 60 = 16"
  using parse_tls_header_zero_free_name [OF example_com_parse]
  by (simp add: example_com_parse name_bytes_def)
     (simp add: example_com_hello_def be16_def)

text \<open>
  Claim C3, amended. Round trip: after a successful parse, the splitter run at the
  returned offset with a length \<open>new_len\<close> that covers the record and the five bytes
  reserved behind it (declared record length plus 10 at least, the capacity of the
  buffer at most) leaves two records back to back (the second starts at
  \<open>split = modify_pos + 1\<close>, where the first ends). Their payloads, each as long as its
  length field says, concatenated are the payload of the original record, and the two
  length fields plus 5 sum to the original length plus 5.
\<close>

theorem modify_tls_header_round_trip:
  assumes "parse_tls_header hostname_slot malloc_ok data data_len = Inr r"
    and "data_len \<le> length data"
    and "record_length data 0 + 10 \<le> new_len" and "new_len \<le> length data"
    and "split = out_modify_pos r + 1"
  shows "\<exists>data'. modify_tls_header data new_len (out_modify_pos r) = Inr data' \<and>
           record_payload data' 0 @ record_payload data' split = record_payload data 0 \<and>
           length (record_payload data 0) = record_length data 0 \<and>
           length (record_payload data' 0) = record_length data' 0 \<and>
           length (record_payload data' split) = record_length data' split \<and>
           split = 5 + record_length data' 0 \<and>
           record_length data' 0 + record_length data' split + 5 = record_length data 0 + 5"
proof -
  define M where "M = out_modify_pos r"
  define rl where "rl = record_length data 0"
  define h where "h = take 3 data"
  define p1 where "p1 = take (M - 4) (drop 5 data)"
  define q where "q = take (new_len - 6 - M) (drop (M + 1) data) @ drop new_len data"
  define d where "d = h @ htons_bytes (M - 4) @ p1 @ h @ htons_bytes (rl - (M - 4)) @ q"
  have "out_modify_pos r < be16 data 3 + 5"
    using parse_tls_header_Inr [OF assms(1,2)] by simp
  with assms(3) have room: "out_modify_pos r + 6 \<le> new_len"
    by (simp add: record_length_def)
  note m = modify_after_parse [OF assms(1,2) room assms(4), folded M_def rl_def]
  have run: "modify_tls_header data new_len M = Inr d"
    using m(1) by (simp add: d_def h_def p1_def q_def)
  have rl_less: "rl < 65536"
    unfolding rl_def record_length_def by (rule be16_less)
  have sp: "split = 5 + (M - 4)"
    using assms(5) m(2) by (simp add: M_def)
  have lens: "length h = 3" "length p1 = M - 4"
    using assms(3,4) m(2,3) by (simp_all add: h_def p1_def rl_def [symmetric])
  have v: "M - 4 < 65536" "rl - (M - 4) < 65536"
    using rl_less m(3) by simp_all
  note two = two_records [OF d_def lens v, folded sp]
  have k: "rl - (M - 4) \<le> new_len - 6 - M"
    using assms(3) m(2) by (simp add: rl_def [symmetric])
  have "length (take (new_len - 6 - M) (drop (M + 1) data)) = new_len - 6 - M"
    using assms(4) by simp
  with k have "take (rl - (M - 4)) q =
               take (rl - (M - 4)) (take (new_len - 6 - M) (drop (M + 1) data))"
    unfolding q_def by (simp only: take_append diff_is_0_eq' take_0 append_Nil2)
  also from k have "\<dots> = take (rl - (M - 4)) (drop (M + 1) data)"
    by (simp only: take_take min_absorb1)
  also have "drop (M + 1) data = drop (M - 4) (drop 5 data)"
    using m(2) by simp
  finally have pay2: "record_payload d split = take (rl - (M - 4)) (drop (M - 4) (drop 5 data))"
    by (simp add: two(4))
  have whole: "record_payload data 0 = take rl (drop 5 data)"
    by (simp add: record_payload_def rl_def)
  have "record_payload d 0 @ record_payload d split =
        take (M - 4) (drop 5 data) @ take (rl - (M - 4)) (drop (M - 4) (drop 5 data))"
    by (simp only: two(2) pay2 p1_def)
  also have "\<dots> = take (M - 4 + (rl - (M - 4))) (drop 5 data)"
    by (simp only: take_add)
  also have "M - 4 + (rl - (M - 4)) = rl"
    using m(3) by simp
  finally have join: "record_payload d 0 @ record_payload d split = record_payload data 0"
    by (simp only: whole)
  have full: "length (record_payload data 0) = rl"
    using assms(3,4) by (simp add: record_payload_def rl_def [symmetric])
  have "rl + 10 \<le> length data"
    using assms(3,4) by (simp add: rl_def)
  then have "rl - (M - 4) \<le> length (drop (M - 4) (drop 5 data))"
    using m(2) by simp
  then have l2: "length (record_payload d split) = rl - (M - 4)"
    by (simp only: pay2 length_take min_absorb2)
  have sum: "record_length d 0 + record_length d split + 5 = rl + 5"
    using m(3) by (simp add: two(1,3))
  show ?thesis
    using run join full l2 sum sp lens(2) two(1,2,3)
    by (intro exI [of _ d]) (simp add: M_def [symmetric] rl_def [symmetric])
qed

text \<open>
  Claim C3 as stated, for every call of the splitter after a successful parse, fails
  when the splitter is given the length the parser was given. For \<open>example.com\<close> and
  the length 78 the shift moves five bytes only: the second record declares 10 bytes
  and holds \<open>xampl\<close> and the five reserved bytes, and \<open>e.com\<close> is lost.
\<close>

theorem modify_tls_header_round_trip_counterexample:
  "parse_tls_header True (\<lambda>n. True) example_com_buffer 78 =
     Inr \<lparr>ret_len = 11, out_hostname = map of_char ''example.com'' @ [0],
          out_modify_pos = 67\<rparr> \<and>
   modify_tls_header example_com_buffer 78 67 = Inr example_com_split_short \<and>
   drop 63 (record_payload example_com_buffer 0) = map of_char ''xample.com'' \<and>
   record_payload example_com_split_short 68 = map of_char ''xampl'' @ [0, 0, 0, 0, 0] \<and>
   record_payload example_com_split_short 0 @ record_payload example_com_split_short 68 \<noteq>
     record_payload example_com_buffer 0"
  by (simp add: example_com_buffer_parse example_com_buffer_split_short)
     (simp add: example_com_buffer_def example_com_hello_def example_com_split_short_def
        record_length_def record_payload_def be16_def)

text \<open>
  The ClientHello for \<open>example.com\<close> in a buffer of 83 bytes, split with the length 83:
  the split is at 68, the records carry 63 and 10 bytes, and 63 + 10 is the original 73.
\<close>

theorem modify_tls_header_round_trip_witness:
  "parse_tls_header True (\<lambda>n. True) example_com_buffer 78 =
     Inr \<lparr>ret_len = 11, out_hostname = map of_char ''example.com'' @ [0],
          out_modify_pos = 67\<rparr> \<and>
   78 \<le> length example_com_buffer \<and>
   record_length example_com_buffer 0 + 10 \<le> 83 \<and> 83 \<le> length example_com_buffer \<and>
   modify_tls_header example_com_buffer 83 67 = Inr example_com_split \<and>
   record_payload example_com_split 0 @ record_payload example_com_split 68 =
     record_payload example_com_buffer 0 \<and>
   record_length example_com_split 0 = 63 \<and>
   record_length example_com_split 68 = 10 \<and>
   record_length example_com_buffer 0 = 73"
  using modify_tls_header_round_trip [OF example_com_buffer_parse, of 83 68]
  by (simp add: example_com_buffer_parse example_com_buffer_split)
     (simp add: example_com_buffer_def example_com_hello_def example_com_split_def
        record_length_def record_payload_def be16_def)

text \<open>
  Claim C4, amended. After a successful parse, the splitter run at the returned offset
  with a length \<open>new_len\<close> that leaves room for the inserted header behind the split
  point (\<open>modify_pos + 6\<close> at least, the capacity of the buffer at most) leaves the buffer
  as long as it was; with \<open>split = modify_pos + 1\<close>, the content type and the version of
  the original header stand at offset 0 and again at offset \<open>split\<close>, the big-endian
  length field of the first record is \<open>split - 5\<close>, and that of the second record is the
  original length minus \<open>split - 5\<close>.
\<close>

theorem modify_tls_header_length_fields:
  assumes "parse_tls_header hostname_slot malloc_ok data data_len = Inr r"
    and "data_len \<le> length data"
    and "out_modify_pos r + 6 \<le> new_len" and "new_len \<le> length data"
    and "split = out_modify_pos r + 1"
  shows "\<exists>data'. modify_tls_header data new_len (out_modify_pos r) = Inr data' \<and>
           length data' = length data \<and>
           take 3 data' = take 3 data \<and>
           take 3 (drop split data') = take 3 data \<and>
           record_length data' 0 = split - 5 \<and>
           record_length data' split = record_length data 0 - (split - 5)"
proof -
  define M where "M = out_modify_pos r"
  define rl where "rl = record_length data 0"
  define h where "h = take 3 data"
  define p1 where "p1 = take (M - 4) (drop 5 data)"
  define q where "q = take (new_len - 6 - M) (drop (M + 1) data) @ drop new_len data"
  define d where "d = h @ htons_bytes (M - 4) @ p1 @ h @ htons_bytes (rl - (M - 4)) @ q"
  note m = modify_after_parse [OF assms(1-4), folded M_def rl_def]
  have room: "M + 6 \<le> new_len"
    using assms(3) by (simp add: M_def)
  have run: "modify_tls_header data new_len M = Inr d"
    using m(1) by (simp add: d_def h_def p1_def q_def)
  have rl_less: "rl < 65536"
    unfolding rl_def record_length_def by (rule be16_less)
  have sp: "split = 5 + (M - 4)"
    using assms(5) m(2) by (simp add: M_def)
  have lens: "length h = 3" "length p1 = M - 4"
    using room assms(4) m(2) by (simp_all add: h_def p1_def)
  have v: "M - 4 < 65536" "rl - (M - 4) < 65536"
    using rl_less m(3) by simp_all
  note two = two_records [OF d_def lens v, folded sp]
  have "length q = length data - M - 6"
    using room assms(4) by (simp add: q_def)
  with room assms(4) m(2) have len: "length d = length data"
    by (simp add: two(7))
  have "M - 4 = split - 5"
    using sp by simp
  with run len two(1,3,5,6) show ?thesis
    by (intro exI [of _ d]) (simp add: M_def [symmetric] rl_def [symmetric] h_def)
qed

text \<open>
  Claim C4 as stated, for every call of the splitter after a successful parse, fails
  when the length leaves no room behind the split point. On the 64 bytes of the
  ClientHello whose three-byte name ends the record the parser gives the offset 61, and
  the splitter given the length 64 computes the count \<open>64 - 5 - 62\<close>, which wraps
  around: the shift leaves the buffer and no record is written.
\<close>

theorem modify_tls_header_length_fields_counterexample:
  "parse_tls_header True (\<lambda>n. True) nul_name_hello 64 =
     Inr \<lparr>ret_len = 3, out_hostname = [0x61, 0, 0, 0], out_modify_pos = 61\<rparr> \<and>
   64 \<le> length nul_name_hello \<and>
   size_t_sub (size_t_sub 64 5) 62 = 2 ^ 64 - 3 \<and>
   modify_tls_header nul_name_hello 64 61 = Inl OutOfBounds"
  by (simp add: nul_name_parse nul_name_split) (simp add: nul_name_hello_def size_t_sub_def)

text \<open>
  The buffer for \<open>example.com\<close>, split with the length 83 and with the length 78: either
  way the header \<open>16 03 03 00 49\<close> becomes \<open>16 03 03 00 3f\<close> at offset 0 and
  \<open>16 03 03 00 0a\<close> at offset 68, and the buffer keeps its 83 bytes.
\<close>

theorem modify_tls_header_length_fields_witness:
  "parse_tls_header True (\<lambda>n. True) example_com_buffer 78 =
     Inr \<lparr>ret_len = 11, out_hostname = map of_char ''example.com'' @ [0],
          out_modify_pos = 67\<rparr> \<and>
   78 \<le> length example_com_buffer \<and>
   (67 :: nat) + 6 \<le> 78 \<and> 83 \<le> length example_com_buffer \<and>
   take 5 example_com_buffer = [0x16, 0x03, 0x03, 0x00, 0x49] \<and>
   modify_tls_header example_com_buffer 83 67 = Inr example_com_split \<and>
   length example_com_split = length example_com_buffer \<and>
   take 5 example_com_split = [0x16, 0x03, 0x03, 0x00, 0x3f] \<and>
   take 5 (drop 68 example_com_split) = [0x16, 0x03, 0x03, 0x00, 0x0a] \<and>
   modify_tls_header example_com_buffer 78 67 = Inr example_com_split_short \<and>
   length example_com_split_short = length example_com_buffer \<and>
   take 5 example_com_split_short = [0x16, 0x03, 0x03, 0x00, 0x3f] \<and>
   take 5 (drop 68 example_com_split_short) = [0x16, 0x03, 0x03, 0x00, 0x0a]"
  using modify_tls_header_length_fields [OF example_com_buffer_parse, of 83 68]
    modify_tls_header_length_fields [OF example_com_buffer_parse, of 78 68]
  by (simp add: example_com_buffer_parse example_com_buffer_split example_com_buffer_split_short)
     (simp add: example_com_buffer_def example_com_hello_def example_com_split_def
        example_com_split_short_def record_length_def be16_def)

text \<open>
  Claim C5, amended. A buffer shorter than 5 bytes is \<open>Incomplete\<close>. A buffer of at
  least 5 bytes whose content type is \<open>0x16\<close>, whose record version major is at least 3
  and whose declared record length plus the 5-byte header exceeds the supplied length is
  \<open>Incomplete\<close>.
\<close>

theorem parse_tls_header_incomplete:
  assumes "data_len < 5 \<or>
           (5 \<le> data_len \<and> data_len \<le> length data \<and> data ! 0 = 0x16 \<and> 3 \<le> data ! 1 \<and>
            data_len < record_length data 0 + 5)"
  shows "parse_tls_header True malloc_ok data data_len = Inl Incomplete"
proof (cases "data_len < 5")
  case True
  then show ?thesis
    by (simp add: parse_tls_header_def TLS_HEADER_LEN_def)
next
  case False
  with assms show ?thesis
    by (simp add: parse_tls_header_pure record_length_def not_less [symmetric])
qed

text \<open>
  Claim C5 as stated fails where an earlier check of the header decides: a declared
  length beyond the buffer gives \<open>Malformed\<close> under the content type \<open>0x17\<close>, and
  \<open>NoHostname\<close> under the record version 2.0.
\<close>

theorem parse_tls_header_incomplete_counterexample:
  "record_length [0x17, 3, 1, 0xff, 0xff] 0 + 5 > 5 \<and>
   parse_tls_header True (\<lambda>n. True) [0x17, 3, 1, 0xff, 0xff] 5 = Inl Malformed \<and>
   record_length [0x16, 2, 0, 0xff, 0xff] 0 + 5 > 5 \<and>
   parse_tls_header True (\<lambda>n. True) [0x16, 2, 0, 0xff, 0xff] 5 = Inl NoHostname"
  by (simp add: parser_defs record_length_def be16_def)

text \<open>
  Two bytes of a record, and a header that declares 16 bytes of which none has arrived.
\<close>

theorem parse_tls_header_incomplete_witness:
  "parse_tls_header True (\<lambda>n. True) [0x16, 3] 2 = Inl Incomplete \<and>
   (5::nat) \<le> 5 \<and> 5 \<le> length [0x16, 3, 1, 0, 0x10 :: u8] \<and>
   [0x16, 3, 1, 0, 0x10 :: u8] ! 0 = 0x16 \<and> 3 \<le> [0x16, 3, 1, 0, 0x10 :: u8] ! 1 \<and>
   5 < record_length [0x16, 3, 1, 0, 0x10] 0 + 5 \<and>
   parse_tls_header True (\<lambda>n. True) [0x16, 3, 1, 0, 0x10] 5 = Inl Incomplete"
  using parse_tls_header_incomplete [of 2 "[0x16, 3]" "\<lambda>n. True"]
    parse_tls_header_incomplete [of 5 "[0x16, 3, 1, 0, 0x10]" "\<lambda>n. True"]
  by (simp add: record_length_def be16_def)

text \<open>
  Claim C6, amended. A buffer of at least 5 bytes whose content type is not \<open>0x16\<close>, and
  that does not show the SSLv2 ClientHello pattern (high bit of byte 0 set and byte 2
  equal to 1), is \<open>Malformed\<close>.
\<close>

theorem parse_tls_header_wrong_content_type:
  assumes "5 \<le> data_len" and "data_len \<le> length data"
    and "data ! 0 \<noteq> 0x16"
    and "\<not> (bit (data ! 0) 7 \<and> data ! 2 = 1)"
  shows "parse_tls_header True malloc_ok data data_len = Inl Malformed"
  using assms by (simp add: parse_tls_header_pure high_bit)

text \<open>
  Claim C6 as stated fails on the SSLv2 pattern, which is checked first: byte 0 is
  \<open>0x80\<close>, not \<open>0x16\<close>, and the parser returns \<open>NoHostname\<close>.
\<close>

theorem parse_tls_header_wrong_content_type_counterexample:
  "5 \<le> length [0x80, 0, 1, 0, 0 :: u8] \<and> [0x80, 0, 1, 0, 0 :: u8] ! 0 \<noteq> 0x16 \<and>
   parse_tls_header True (\<lambda>n. True) [0x80, 0, 1, 0, 0] 5 = Inl NoHostname"
  by (simp add: parser_defs)

text \<open>An application-data record, content type \<open>0x17\<close>.\<close>

theorem parse_tls_header_wrong_content_type_witness:
  "5 \<le> length [0x17, 3, 1, 0, 0 :: u8] \<and> [0x17, 3, 1, 0, 0 :: u8] ! 0 \<noteq> 0x16 \<and>
   \<not> bit ([0x17, 3, 1, 0, 0 :: u8] ! 0) 7 \<and>
   parse_tls_header True (\<lambda>n. True) [0x17, 3, 1, 0, 0] 5 = Inl Malformed"
  using parse_tls_header_wrong_content_type [of 5 "[0x17, 3, 1, 0, 0]" "\<lambda>n. True"]
  by (simp add: bit_numeral_iff flip: high_bit)

text \<open>
  Claim C7. A buffer of at least 5 bytes with the high bit of byte 0 set and byte 2 equal
  to 1, the SSLv2 ClientHello pattern, is \<open>NoHostname\<close>.
\<close>

theorem parse_tls_header_ssl2:
  assumes "5 \<le> data_len" and "data_len \<le> length data"
    and "bit (data ! 0) 7" and "data ! 2 = 1"
  shows "parse_tls_header True malloc_ok data data_len = Inl NoHostname"
  using assms by (simp add: parse_tls_header_pure high_bit)

text \<open>The first five bytes of an SSLv2 ClientHello of 46 bytes.\<close>

theorem parse_tls_header_ssl2_witness:
  "5 \<le> length [0x80, 0x2e, 1, 0, 2 :: u8] \<and> bit ([0x80, 0x2e, 1, 0, 2 :: u8] ! 0) 7 \<and>
   [0x80, 0x2e, 1, 0, 2 :: u8] ! 2 = 1 \<and>
   parse_tls_header True (\<lambda>n. True) [0x80, 0x2e, 1, 0, 2] 5 = Inl NoHostname"
  using parse_tls_header_ssl2 [of 5 "[0x80, 0x2e, 1, 0, 2]" "\<lambda>n. True"]
  by (simp flip: high_bit)

text \<open>
  Claim C8. A well-formed SSL 3.0 ClientHello (record version 3.0) that ends with an
  empty extensions block, or with no byte at all after the compression methods, is
  \<open>NoHostname\<close>. The record is built from its fields by \<open>tls_record\<close> and
  \<open>client_hello\<close>; bytes may follow it in the buffer.
\<close>

theorem parse_tls_header_ssl3_no_extensions:
  assumes "length client_version = 2" and "length random = 32"
    and "length session_id \<le> 255" and "length cipher_suites \<le> 65535"
    and "length compression_methods \<le> 255"
    and "tail = [] \<or> tail = [0, 0]"
    and "hello = client_hello client_version random session_id cipher_suites
                   compression_methods tail"
    and "length hello \<le> 65535"
    and "data = tls_record 3 0 hello @ rest"
  shows "parse_tls_header True malloc_ok data (length data) = Inl NoHostname"
proof -
  define pre where "pre = [0x16, 3, 0] @ htons_bytes (length hello) @ [0x01] @
      be24_bytes (length hello - 4) @ client_version @ random"
  define fields where "fields = of_nat (length session_id) # session_id @
      htons_bytes (length cipher_suites) @ cipher_suites @
      of_nat (length compression_methods) # compression_methods @ tail"
  have lh: "length hello = 38 + length fields"
    using assms(1,2) by (simp add: assms(7) client_hello_def be24_bytes_def fields_def Let_def)
  have hello: "hello = [0x01] @ be24_bytes (length hello - 4) @ client_version @ random @ fields"
    using assms(1,2)
    by (simp add: assms(7) client_hello_def fields_def Let_def be24_bytes_def length_htons_bytes)
  have lp: "length pre = 43"
    using assms(1,2) by (simp add: pre_def be24_bytes_def length_htons_bytes)
  have "be16 ([0x16, 3, 0] @ htons_bytes (length hello) @
          ([0x01] @ be24_bytes (length hello - 4) @ client_version @ random)) 3 =
        length hello mod 65536"
    by (intro be16_htons_bytes) simp
  then have b: "be16 pre 3 = 38 + length fields"
    using assms(8) by (simp add: pre_def lh)
  have p: "pre ! 0 = 0x16" "pre ! 1 = 3" "pre ! 2 = 0" "pre ! 5 = 1"
    by (simp_all add: pre_def htons_bytes_def)
  have "data = [0x16, 3, 0] @ htons_bytes (length hello) @ hello @ rest"
    by (simp add: assms(9) tls_record_def)
  also have "\<dots> = pre @ fields @ rest"
    by (subst (2) hello) (simp add: pre_def)
  finally have d: "data = pre @ of_nat (length session_id) # session_id @
      htons_bytes (length cipher_suites) @ cipher_suites @
      of_nat (length compression_methods) # compression_methods @ tail @ rest"
    by (simp add: fields_def)
  show ?thesis
    using lp p(1,2,3) b [unfolded fields_def] p(4) assms(3,4,5,6) d
    by (rule ssl3_hello_layout)
qed

text \<open>
  The two sample records: 52 bytes with the empty extensions block \<open>00 00\<close>, 50 bytes
  without it.
\<close>

theorem parse_tls_header_ssl3_no_extensions_witness:
  "ssl3_hello_empty_extensions =
     [0x16, 0x03, 0x00, 0x00, 0x2f,
      0x01, 0x00, 0x00, 0x2b, 0x03, 0x00,
      0x00, 0x01, 0x02, 0x03, 0x04, 0x05, 0x06, 0x07, 0x08, 0x09, 0x0a, 0x0b, 0x0c, 0x0d, 0x0e, 0x0f,
      0x10, 0x11, 0x12, 0x13, 0x14, 0x15, 0x16, 0x17, 0x18, 0x19, 0x1a, 0x1b, 0x1c, 0x1d, 0x1e, 0x1f,
      0x00,
      0x00, 0x02, 0x00, 0x2f,
      0x01, 0x00,
      0x00, 0x00] \<and>
   parse_tls_header True (\<lambda>n. True) ssl3_hello_empty_extensions
     (length ssl3_hello_empty_extensions) = Inl NoHostname \<and>
   length ssl3_hello_no_extensions = 50 \<and>
   parse_tls_header True (\<lambda>n. True) ssl3_hello_no_extensions
     (length ssl3_hello_no_extensions) = Inl NoHostname"
  using parse_tls_header_ssl3_no_extensions [of "[3, 0]" sample_random "[]" "[0x00, 0x2f]"
      "[0x00]" "[0, 0]" _ _ "[]" "\<lambda>n. True", OF _ _ _ _ _ _ refl _ refl]
    parse_tls_header_ssl3_no_extensions [of "[3, 0]" sample_random "[]" "[0x00, 0x2f]"
      "[0x00]" "[]" _ _ "[]" "\<lambda>n. True", OF _ _ _ _ _ _ refl _ refl]
  by (simp add: ssl3_hello_empty_extensions_def ssl3_hello_no_extensions_def
        tls_record_def client_hello_def be24_bytes_def htons_bytes_def Let_def sample_random_def)

text \<open>
  Claim C9. A buffer of at least 5 bytes whose content type is \<open>0x16\<close> and whose record
  version major, byte 1, is below 3 is \<open>NoHostname\<close>, whatever record length it
  declares.
\<close>

theorem parse_tls_header_old_version:
  assumes "5 \<le> data_len" and "data_len \<le> length data"
    and "data ! 0 = 0x16" and "data ! 1 < 3"
  shows "parse_tls_header True malloc_ok data data_len = Inl NoHostname"
  using assms by (simp add: parse_tls_header_pure)

text \<open>A handshake record of version 2.0 that declares 65535 bytes and holds none.\<close>

theorem parse_tls_header_old_version_witness:
  "5 \<le> length [0x16, 2, 0, 0xff, 0xff :: u8] \<and> [0x16, 2, 0, 0xff, 0xff :: u8] ! 0 = 0x16 \<and>
   [0x16, 2, 0, 0xff, 0xff :: u8] ! 1 < 3 \<and>
   parse_tls_header True (\<lambda>n. True) [0x16, 2, 0, 0xff, 0xff] 5 = Inl NoHostname"
  using parse_tls_header_old_version [of 5 "[0x16, 2, 0, 0xff, 0xff]" "\<lambda>n. True"]
  by simp

text \<open>
  Claim C10, amended. When the parser succeeds with the length \<open>L\<close> and the offset \<open>M\<close>
  on a buffer that holds the \<open>data_len\<close> bytes announced, the name lies inside the
  validated record: \<open>5 \<le> M\<close>, and \<open>M + L\<close> is at most the smaller of the supplied
  length and 5 plus the declared record length. The split point \<open>M + 1\<close> lies in that
  region as well. The splitter stays inside the buffer when the length passed to it
  leaves room for the inserted header, \<open>M + 6 \<le> new_len\<close>, and is within the buffer's
  capacity; it then writes up to \<open>new_len\<close>.
\<close>

theorem parse_tls_header_name_in_record:
  assumes "parse_tls_header hostname_slot malloc_ok data data_len = Inr r"
    and "data_len \<le> length data"
  shows "5 \<le> out_modify_pos r \<and>
         out_modify_pos r + ret_len r \<le> min data_len (5 + record_length data 0) \<and>
         out_modify_pos r + 1 \<le> min data_len (5 + record_length data 0) \<and>
         (out_modify_pos r + 6 \<le> new_len \<and> new_len \<le> length data \<longrightarrow>
            (\<exists>data'. modify_tls_header data new_len (out_modify_pos r) = Inr data'))"
proof -
  note p = parse_tls_header_Inr [OF assms]
  have "be16 data 3 < 65536"
    by (rule be16_less)
  with p have "out_modify_pos r + 1 < 2 ^ 64" and "5 \<le> out_modify_pos r"
    by simp_all
  then have "\<exists>data'. modify_tls_header data new_len (out_modify_pos r) = Inr data'"
    if "out_modify_pos r + 6 \<le> new_len" and "new_len \<le> length data"
    using that by (simp add: modify_tls_header_shape)
  with p show ?thesis
    by (simp add: record_length_def)
qed

text \<open>
  Claim C10 as stated fails in its last part: the bound on \<open>M + L\<close> does not keep the
  splitter inside the region the parser checked. On the 64 bytes of the ClientHello
  with the three-byte name, which ends with the name, the splitter called with the
  length 64 computes the count \<open>64 - 5 - 62\<close>, which wraps around, and leaves the buffer.
  Called with the five reserved bytes, as for \<open>example.com\<close> with the length 83, it writes
  behind the 78 bytes the parser checked: the byte at 82 changes.
\<close>

theorem parse_tls_header_name_in_record_counterexample:
  "parse_tls_header True (\<lambda>n. True) nul_name_hello 64 =
     Inr \<lparr>ret_len = 3, out_hostname = [0x61, 0, 0, 0], out_modify_pos = 61\<rparr> \<and>
   61 + 3 \<le> min 64 (5 + record_length nul_name_hello 0) \<and>
   modify_tls_header nul_name_hello 64 61 = Inl OutOfBounds \<and>
   parse_tls_header True (\<lambda>n. True) example_com_buffer 78 =
     Inr \<lparr>ret_len = 11, out_hostname = map of_char ''example.com'' @ [0],
          out_modify_pos = 67\<rparr> \<and>
   min 78 (5 + record_length example_com_buffer 0) = 78 \<and>
   modify_tls_header example_com_buffer 83 67 = Inr example_com_split \<and>
   example_com_split ! 82 \<noteq> example_com_buffer ! 82"
  by (simp add: nul_name_parse example_com_buffer_parse example_com_buffer_split)
     (simp add: nul_name_hello_def example_com_buffer_def example_com_hello_def
        example_com_split_def record_length_def be16_def splitter_defs)

text \<open>
  For \<open>example.com\<close> the name ends where the record ends, 67 + 11 = 78 = 5 + 73, and
  the splitter called with the length 83 returns the split buffer.
\<close>

theorem parse_tls_header_name_in_record_witness:
  "parse_tls_header True (\<lambda>n. True) example_com_buffer 78 =
     Inr \<lparr>ret_len = 11, out_hostname = map of_char ''example.com'' @ [0],
          out_modify_pos = 67\<rparr> \<and>
   78 \<le> length example_com_buffer \<and>
   record_length example_com_buffer 0 = 73 \<and>
   (5::nat) \<le> 67 \<and> (67::nat) + 11 \<le> min 78 (5 + 73) \<and> (67::nat) + 1 \<le> min 78 (5 + 73) \<and>
   (67::nat) + 6 \<le> 83 \<and> 83 \<le> length example_com_buffer \<and>
   modify_tls_header example_com_buffer 83 67 = Inr example_com_split"
  using parse_tls_header_name_in_record [OF example_com_buffer_parse, of 83]
  by (simp add: example_com_buffer_parse example_com_buffer_split)
     (simp add: example_com_buffer_def example_com_hello_def record_length_def be16_def)

end
